theory Spec2Isabelle
  imports Main "HOL-Library.Monad_Syntax" "HOL-Library.Sublist"
begin

section \<open>Strings and patterns of the host language\<close>

text \<open>
  The sources are TypeScript. A string is modelled as a \<^typ>\<open>string\<close>, one \<^typ>\<open>char\<close>
  per code unit, which covers the code units below 256. Numbers that count commands are
  modelled as \<^typ>\<open>nat\<close>: the counter starts at 0 and is only ever incremented, and it
  stays far below the range where the host's numbers stop being exact.
\<close>

definition backslash :: char where
  "backslash = CHR 0x5C"

definition dquote :: char where
  "dquote = CHR 0x22"

definition squote :: char where
  "squote = CHR 0x27"

definition newline :: char where
  "newline = CHR 0x0A"

text \<open>White space as \<^verbatim>\<open>trim\<close> and \<^verbatim>\<open>\s\<close> see it (tab, line feed, vertical tab, form
  feed, carriage return, space, no-break space), and the line terminators that \<^verbatim>\<open>.\<close>
  refuses.\<close>

definition WhiteSpace :: "char \<Rightarrow> bool" where
  "WhiteSpace c = (c \<in> set [CHR 0x09, CHR 0x0A, CHR 0x0B, CHR 0x0C, CHR 0x0D, CHR 0x20, CHR 0xA0])"

definition LineTerminator :: "char \<Rightarrow> bool" where
  "LineTerminator c = (c = CHR 0x0A \<or> c = CHR 0x0D)"

text \<open>\<^verbatim>\<open>String.prototype.trim\<close>.\<close>

definition String_trim :: "string \<Rightarrow> string" where
  "String_trim s = rev (dropWhile WhiteSpace (rev (dropWhile WhiteSpace s)))"

text \<open>The text of a number inside a template literal: its decimal digits.\<close>

definition digit :: "nat \<Rightarrow> char" where
  "digit d = ''0123456789'' ! d"

fun decimal :: "nat \<Rightarrow> string" where
  "decimal n = (if n < 10 then [digit n] else decimal (n div 10) @ [digit (n mod 10)])"

declare decimal.simps [simp del]

text \<open>The text of a value that may be \<^verbatim>\<open>undefined\<close>, as string concatenation produces it.\<close>

definition toString :: "string option \<Rightarrow> string" where
  "toString v = (case v of None \<Rightarrow> ''undefined'' | Some s \<Rightarrow> s)"

subsection \<open>Patterns\<close>

text \<open>
  The fragment of the pattern language the sources use: literal characters, \<^verbatim>\<open>.\<close>,
  \<^verbatim>\<open>\s\<close>, \<^verbatim>\<open>\S\<close>, the anchors \<^verbatim>\<open>^\<close> and \<^verbatim>\<open>$\<close> (no flag is ever given, so they
  mean start and end of the input), groups and the greedy quantifiers \<^verbatim>\<open>*\<close>, \<^verbatim>\<open>+\<close>,
  \<^verbatim>\<open>?\<close>. A capturing group is read as a group: the sources never refer to what a group
  captured, and whether and where a pattern matches does not depend on it.
\<close>

datatype regex =
    Chr char | Dot | Space | NonSpace | Bol | Eol
  | Eps | Seq regex regex
  | Star regex | Plus regex | Opt regex

definition seq :: "regex list \<Rightarrow> regex" where
  "seq rs = foldr Seq rs Eps"

fun quantifiable :: "regex \<Rightarrow> bool" where
  "quantifiable (Star r) = False"
| "quantifiable (Plus r) = False"
| "quantifiable (Opt r) = False"
| "quantifiable Bol = False"
| "quantifiable Eol = False"
| "quantifiable r = True"

definition quantify :: "(regex \<Rightarrow> regex) \<Rightarrow> regex list \<Rightarrow> regex list option" where
  "quantify q cur =
     (case cur of
        [] \<Rightarrow> None
      | a # as \<Rightarrow> if quantifiable a then Some (q a # as) else None)"

text \<open>
  Reading a pattern source of the fragment, left to right; \<open>cur\<close> holds the terms of the
  group being read, latest first, and \<open>stk\<close> the enclosing groups. The result is \<open>None\<close>
  where the source is not a pattern of the fragment: where it is no pattern at all (a
  quantifier with nothing to repeat, an unbalanced parenthesis, a trailing backslash)
  and where it leaves the fragment (classes, braces, alternation, other escapes, lazy
  quantifiers, the groups that begin with a question mark other than \<^verbatim>\<open>(?:\<close>).
\<close>

fun parse :: "string \<Rightarrow> regex list \<Rightarrow> regex list list \<Rightarrow> regex option" where
  "parse [] cur stk = (case stk of [] \<Rightarrow> Some (seq (rev cur)) | _ \<Rightarrow> None)"
| "parse (c # cs) cur stk =
    (if c = CHR ''^'' then parse cs (Bol # cur) stk
     else if c = CHR ''$'' then parse cs (Eol # cur) stk
     else if c = CHR ''.'' then parse cs (Dot # cur) stk
     else if c = CHR ''*'' then
       (case quantify Star cur of None \<Rightarrow> None | Some cur' \<Rightarrow> parse cs cur' stk)
     else if c = CHR ''+'' then
       (case quantify Plus cur of None \<Rightarrow> None | Some cur' \<Rightarrow> parse cs cur' stk)
     else if c = CHR ''?'' then
       (case quantify Opt cur of None \<Rightarrow> None | Some cur' \<Rightarrow> parse cs cur' stk)
     else if c = CHR ''('' then
       (case cs of
          [] \<Rightarrow> None
        | q # cs1 \<Rightarrow>
            if q = CHR ''?'' then
              (case cs1 of
                 [] \<Rightarrow> None
               | k # cs' \<Rightarrow> if k = CHR '':'' then parse cs' [] (cur # stk) else None)
            else parse cs [] (cur # stk))
     else if c = CHR '')'' then
       (case stk of [] \<Rightarrow> None | up # stk' \<Rightarrow> parse cs (seq (rev cur) # up) stk')
     else if c = backslash then
       (case cs of
          [] \<Rightarrow> None
        | e # cs' \<Rightarrow>
            if e = CHR ''s'' then parse cs' (Space # cur) stk
            else if e = CHR ''S'' then parse cs' (NonSpace # cur) stk
            else None)
     else if c \<in> set ''[]{}|'' then None
     else parse cs (Chr c # cur) stk)"

text \<open>
  Matching is by backtracking. A position is the number of characters already passed
  together with the input still ahead; \<open>rmatch r st\<close> lists the positions at which
  \<open>r\<close> can end when started at \<open>st\<close>, in the order the engine tries them (greedy
  quantifiers try one more round before giving up the round). A round of a quantifier
  that passes no character is dropped, as the engine does; so the number of rounds is at
  most the length of the input ahead, which is the first argument of \<open>repeat\<close>.
\<close>

type_synonym position = "nat \<times> string"

primrec repeat :: "nat \<Rightarrow> (position \<Rightarrow> position list) \<Rightarrow> position \<Rightarrow> position list" where
  "repeat 0 f st = [st]"
| "repeat (Suc n) f st =
     concat (map (repeat n f) (filter (\<lambda>st'. length (snd st') < length (snd st)) (f st))) @ [st]"

primrec rmatch :: "regex \<Rightarrow> position \<Rightarrow> position list" where
  "rmatch (Chr c) =
     (\<lambda>(i, s). case s of [] \<Rightarrow> [] | x # xs \<Rightarrow> if x = c then [(Suc i, xs)] else [])"
| "rmatch Dot =
     (\<lambda>(i, s). case s of [] \<Rightarrow> [] | x # xs \<Rightarrow> if LineTerminator x then [] else [(Suc i, xs)])"
| "rmatch Space =
     (\<lambda>(i, s). case s of [] \<Rightarrow> [] | x # xs \<Rightarrow> if WhiteSpace x then [(Suc i, xs)] else [])"
| "rmatch NonSpace =
     (\<lambda>(i, s). case s of [] \<Rightarrow> [] | x # xs \<Rightarrow> if WhiteSpace x then [] else [(Suc i, xs)])"
| "rmatch Bol = (\<lambda>(i, s). if i = 0 then [(i, s)] else [])"
| "rmatch Eol = (\<lambda>(i, s). if s = [] then [(i, s)] else [])"
| "rmatch Eps = (\<lambda>st. [st])"
| "rmatch (Seq a b) = (\<lambda>st. concat (map (rmatch b) (rmatch a st)))"
| "rmatch (Star r) = (\<lambda>st. repeat (length (snd st)) (rmatch r) st)"
| "rmatch (Plus r) =
     (\<lambda>st. concat (map (\<lambda>st'. repeat (length (snd st')) (rmatch r) st') (rmatch r st)))"
| "rmatch (Opt r) = (\<lambda>st. rmatch r st @ [st])"

text \<open>
  \<^verbatim>\<open>RegExp.prototype.exec\<close> without flags: the start index runs from 0 to the length of
  the input, and the first index with a match decides; the result is the start and the
  end of that match.
\<close>

primrec first_match :: "regex \<Rightarrow> string \<Rightarrow> nat list \<Rightarrow> (nat \<times> nat) option" where
  "first_match re str [] = None"
| "first_match re str (i # is) =
     (case rmatch re (i, drop i str) of
        [] \<Rightarrow> first_match re str is
      | (j, rest) # _ \<Rightarrow> Some (i, j))"

definition exec :: "regex \<Rightarrow> string \<Rightarrow> (nat \<times> nat) option" where
  "exec re str = first_match re str [0..<Suc (length str)]"

text \<open>
  A pattern object, as far as the sources use one: what \<^verbatim>\<open>exec\<close> finds in a string, the
  start and the end of the first match or nothing.
\<close>

type_synonym pattern = "string \<Rightarrow> (nat \<times> nat) option"

type_synonym host = "string \<Rightarrow> pattern option"

text \<open>
  \<^verbatim>\<open>new RegExp(source)\<close>; \<open>None\<close> is the constructor throwing. A source of the fragment
  gives the pattern read from it. Every other source is left to the parameter \<open>H\<close>, the
  constructor of the host on those sources: the pattern it builds, or \<open>None\<close> where it
  throws. Nothing is assumed about \<open>H\<close>.
\<close>

definition RegExp :: "host \<Rightarrow> string \<Rightarrow> pattern option" where
  "RegExp H src = (case parse src [] [] of Some r \<Rightarrow> Some (exec r) | None \<Rightarrow> H src)"

text \<open>
  \<^verbatim>\<open>str.match(re) !== null\<close>. The variable holding the pattern may still be
  \<^verbatim>\<open>undefined\<close> (\<open>None\<close>); \<^verbatim>\<open>match\<close> then builds the empty pattern, which matches
  every string.
\<close>

definition String_match :: "string \<Rightarrow> pattern option \<Rightarrow> bool" where
  "String_match str re = (case re of None \<Rightarrow> True | Some p \<Rightarrow> p str \<noteq> None)"

text \<open>\<^verbatim>\<open>str.replace(re, new)\<close> for a pattern without the global flag and a replacement
  text without \<^verbatim>\<open>$\<close>.\<close>

definition String_replace :: "string \<Rightarrow> pattern \<Rightarrow> string \<Rightarrow> string" where
  "String_replace str re new =
     (case re str of None \<Rightarrow> str | Some (i, j) \<Rightarrow> take i str @ new @ drop j str)"

section \<open>Runtime.ts\<close>

subsection \<open>Static members\<close>

text \<open>
  \<open>Constants.MODULE_NAME\<close> is not among the sources at hand; it is the parameter \<open>M\<close>
  of everything that depends on it.

  \<open>SYNC_REGEX\<close> is written in a template literal, where the escape \<^verbatim>\<open>\s\<close> denotes the
  letter s: the pattern source is \<^verbatim>\<open>^(?:debug> )*s*vsc::\<close> followed by the module name.
\<close>

definition PROMPT :: string where
  "PROMPT = ''debug> ''"

definition PROMPT_REGEX :: "host \<Rightarrow> pattern option" where
  "PROMPT_REGEX H = RegExp H (''^(?:'' @ PROMPT @ '')*'')"

definition SYNC :: "string \<Rightarrow> string" where
  "SYNC M = ''vsc::'' @ M"

definition SYNC_REGEX :: "host \<Rightarrow> string \<Rightarrow> pattern option" where
  "SYNC_REGEX H M = RegExp H (''^(?:'' @ PROMPT @ '')*s*'' @ SYNC M)"

definition syncString :: "string \<Rightarrow> nat \<Rightarrow> string" where
  "syncString M ident = SYNC M @ '':'' @ decimal ident"

definition syncRegEx :: "host \<Rightarrow> string \<Rightarrow> nat \<Rightarrow> pattern option" where
  "syncRegEx H M ident = RegExp H (''^(?:'' @ PROMPT @ '')*'' @ syncString M ident @ ''$'')"

definition echo :: "string \<Rightarrow> string" where
  "echo str = ''printf('' @ [dquote] @ str @ [backslash] @ ''n'' @ [dquote] @ '')''"

subsection \<open>The session\<close>

text \<open>
  A callback given to the session is one of two things: a continuation of the caller,
  known here only by a number and observed through the record of its invocations, or
  the closure that \<open>Expression.evaluate\<close> passes to \<open>isFunction\<close>.
\<close>

datatype callback =
    Caller nat
  | IfUndefinedEvaluate string callback

text \<open>
  The three closures the sources put in the queue, each with its captured variables:
  the one of \<open>evaluate\<close> (the variable \<^verbatim>\<open>value\<close> is the field \<open>valueText\<close>), the one of
  \<open>waitSync\<close> and the one of \<open>Expression.isFunction\<close>.
\<close>

datatype handler =
    EvaluateHandler (valueText: string) (syncRegex: "pattern option") (callback: callback)
  | WaitSyncHandler (syncRegex: "pattern option") (callback: callback)
  | IsFunctionHandler (isFuncRegex: pattern) (val: "string option")
      (syncRegex: "pattern option") (callback: callback)

text \<open>An event handler comes from another layer: a predicate on the line (what it returns
  depends on the line only), known by a number under which its invocations are
  recorded.\<close>

datatype event_handler = EventHandler (tag: nat) (accepts: "string \<Rightarrow> bool")

datatype level = Warn | Log

text \<open>
  The fields of the class, the listeners registered with the event emitter that the
  class extends (event name and the number of the listener), and what the session does
  to its surroundings: the lines written to the standard input of the process, the
  console, the logger of the debug adapter, the invocations of the callers' callbacks
  with their argument, the invocations of the event handlers, the events emitted, the
  listeners called for them, and the tokens that \<open>sync\<close> has returned to whoever called it.
\<close>

record runtime =
  commandNumber :: nat
  processName :: string
  inputHandler :: "handler list"
  eventHandler :: "event_handler list"
  log :: bool
  stdoutBuffer :: "string option"
  stdoutHandled :: bool
  stdin :: "string list"
  console :: "string option list"
  logger :: "(level \<times> string option) list"
  invoked :: "(nat \<times> string option) list"
  eventCalls :: "(nat \<times> string) list"
  emitted :: "string list"
  listeners :: "(string \<times> nat) list"
  notified :: "(string \<times> nat) list"
  issued :: "nat list"

definition warn :: "string option \<Rightarrow> runtime \<Rightarrow> runtime" where
  "warn str rt =
     (let rt1 = (if log rt then rt\<lparr>console := console rt @ [str]\<rparr> else rt)
      in rt1\<lparr>logger := logger rt1 @ [(Warn, str)]\<rparr>)"

definition debug :: "string option \<Rightarrow> runtime \<Rightarrow> runtime" where
  "debug str rt =
     (let rt1 = (if log rt then rt\<lparr>console := console rt @ [str]\<rparr> else rt)
      in rt1\<lparr>logger := logger rt1 @ [(Log, str)]\<rparr>)"

text \<open>
  The two members of the event emitter that matter here. \<open>on\<close> registers a listener.
  \<open>emit\<close> calls the listeners registered for the event, in the order of registration;
  what a listener does is not part of the session and is seen only in \<open>notified\<close>.
  Emitting \<open>error\<close> while no listener is registered for it throws (\<open>None\<close>).
\<close>

definition on :: "string \<Rightarrow> nat \<Rightarrow> runtime \<Rightarrow> runtime" where
  "on name k rt = rt\<lparr>listeners := listeners rt @ [(name, k)]\<rparr>"

definition emit :: "string \<Rightarrow> runtime \<Rightarrow> runtime option" where
  "emit name rt =
     (let ls = filter (\<lambda>l. fst l = name) (listeners rt)
      in if name = ''error'' \<and> ls = [] then None
         else Some (rt\<lparr>emitted := emitted rt @ [name], notified := notified rt @ ls\<rparr>))"

definition setLog :: "bool \<Rightarrow> runtime \<Rightarrow> runtime" where
  "setLog l rt = rt\<lparr>log := l\<rparr>"

definition getLog :: "runtime \<Rightarrow> bool" where
  "getLog rt = log rt"

definition send :: "string \<Rightarrow> runtime \<Rightarrow> runtime" where
  "send cmd rt =
     (let rt1 = rt\<lparr>commandNumber := commandNumber rt + 1\<rparr>;
          rt2 = debug (Some (processName rt1 @ '':'' @ decimal (commandNumber rt1) @ ''> '' @ cmd)) rt1
      in rt2\<lparr>stdin := stdin rt2 @ [cmd @ [newline]]\<rparr>)"

definition addFolder :: "string \<Rightarrow> runtime \<Rightarrow> runtime" where
  "addFolder sourceFolder rt = send (''addpath('' @ [squote] @ sourceFolder @ [squote] @ '')'') rt"

definition connect :: "runtime \<Rightarrow> runtime" where
  "connect rt = debug (Some (''Runtime: connecting to '' @ [squote] @ processName rt @ [squote] @ ''.'')) rt"

definition disconnect :: "runtime \<Rightarrow> runtime" where
  "disconnect rt = send ''quit'' (debug (Some ''Runtime: quitting.'') rt)"

definition addInputHandler :: "handler \<Rightarrow> runtime \<Rightarrow> runtime" where
  "addInputHandler h rt = rt\<lparr>inputHandler := inputHandler rt @ [h]\<rparr>"

definition addEventHandler :: "event_handler \<Rightarrow> runtime \<Rightarrow> runtime" where
  "addEventHandler h rt = rt\<lparr>eventHandler := eventHandler rt @ [h]\<rparr>"

definition clearInputHandlers :: "runtime \<Rightarrow> runtime" where
  "clearInputHandlers rt = rt\<lparr>inputHandler := []\<rparr>"

definition clearEventHandlers :: "runtime \<Rightarrow> runtime" where
  "clearEventHandlers rt = rt\<lparr>eventHandler := []\<rparr>"

text \<open>
  The constructor; the two buffer fields are not initialised by it. Spawning the process
  and wiring its streams have no counterpart here: the events of the process are the
  calls of \<open>onStdout\<close>, \<open>onStderr\<close>, \<open>onExit\<close> and \<open>onError\<close> below. The method
  \<open>start\<close> is left out; it needs \<open>functionFromPath\<close> of \<open>Utils\<close>, which is not among the
  sources at hand, and does nothing but \<open>addFolder\<close> and \<open>send\<close>.
\<close>

definition Runtime_new :: "string \<Rightarrow> string \<Rightarrow> bool \<Rightarrow> runtime" where
  "Runtime_new name sourceFolder l =
     addFolder sourceFolder (clearEventHandlers (clearInputHandlers (connect (setLog l
       \<lparr>commandNumber = 0, processName = name, inputHandler = [], eventHandler = [],
        log = False, stdoutBuffer = None, stdoutHandled = False, stdin = [], console = [],
        logger = [], invoked = [], eventCalls = [], emitted = [], listeners = [],
        notified = [], issued = []\<rparr>))))"

definition sync :: "string \<Rightarrow> runtime \<Rightarrow> nat \<times> runtime" where
  "sync M rt =
     (let ident = commandNumber rt;
          rt1 = send (echo (syncString M ident)) rt
      in (ident, rt1\<lparr>issued := issued rt1 @ [ident]\<rparr>))"

text \<open>
  \<open>waitSync\<close>, \<open>evaluate\<close> and \<open>isFunction\<close> push their closure first and assign the
  pattern it waits for afterwards. The closure is then the last one in the queue, and
  the assignment is an update of its captured variable.
\<close>

fun assign :: "pattern \<Rightarrow> handler \<Rightarrow> handler" where
  "assign re (EvaluateHandler v r cb) = EvaluateHandler v (Some re) cb"
| "assign re (WaitSyncHandler r cb) = WaitSyncHandler (Some re) cb"
| "assign re (IsFunctionHandler f v r cb) = IsFunctionHandler f v (Some re) cb"

definition assign_last :: "pattern \<Rightarrow> runtime \<Rightarrow> runtime" where
  "assign_last re rt =
     rt\<lparr>inputHandler :=
          (case rev (inputHandler rt) of [] \<Rightarrow> [] | h # hs \<Rightarrow> rev (assign re h # hs))\<rparr>"

definition waitSync :: "host \<Rightarrow> string \<Rightarrow> callback \<Rightarrow> runtime \<Rightarrow> runtime option" where
  "waitSync H M cb rt =
     (let rt1 = addInputHandler (WaitSyncHandler None cb) rt;
          (ident, rt2) = sync M rt1
      in do { re \<leftarrow> syncRegEx H M ident; Some (assign_last re rt2) })"

definition waitSend :: "host \<Rightarrow> string \<Rightarrow> string \<Rightarrow> callback \<Rightarrow> runtime \<Rightarrow> runtime option" where
  "waitSend H M cmd cb rt = waitSync H M cb (send cmd rt)"

definition evaluate :: "host \<Rightarrow> string \<Rightarrow> string \<Rightarrow> callback \<Rightarrow> runtime \<Rightarrow> runtime option" where
  "evaluate H M expression cb rt =
     (let rt1 = rt\<lparr>inputHandler := inputHandler rt @ [EvaluateHandler [] None cb]\<rparr>;
          rt2 = send expression rt1;
          (ident, rt3) = sync M rt2
      in do { re \<leftarrow> syncRegEx H M ident; Some (assign_last re rt3) })"

text \<open>Invoking a callback with its argument (\<open>None\<close> is \<^verbatim>\<open>undefined\<close>).\<close>

fun invoke :: "host \<Rightarrow> string \<Rightarrow> callback \<Rightarrow> string option \<Rightarrow> runtime \<Rightarrow> runtime option" where
  "invoke H M (Caller k) info rt = Some (rt\<lparr>invoked := invoked rt @ [(k, info)]\<rparr>)"
| "invoke H M (IfUndefinedEvaluate expression cb) info rt =
     (case info of
        None \<Rightarrow> evaluate H M expression cb rt
      | Some i \<Rightarrow> invoke H M cb info rt)"

text \<open>
  Calling a closure of the queue on a line: what it returns, the closure with its
  captured variables as the call leaves them, and the session.
\<close>

fun call_handler ::
  "host \<Rightarrow> string \<Rightarrow> handler \<Rightarrow> string \<Rightarrow> runtime \<Rightarrow> (bool \<times> handler \<times> runtime) option" where
  "call_handler H M (EvaluateHandler v re cb) str rt =
     (if String_match str re then
        do { rt' \<leftarrow> invoke H M cb (Some v) rt; Some (True, EvaluateHandler v re cb, rt') }
      else
        do { pr \<leftarrow> PROMPT_REGEX H;
             let str' = String_trim (String_replace str pr []);
             let v' = (if length str' \<noteq> 0
                       then (if length v \<noteq> 0 then v @ [newline] else v) @ str'
                       else v);
             Some (False, EvaluateHandler v' re cb, rt) })"
| "call_handler H M (WaitSyncHandler re cb) str rt =
     (if String_match str re then
        do { rt' \<leftarrow> invoke H M cb None rt; Some (True, WaitSyncHandler re cb, rt') }
      else Some (False, WaitSyncHandler re cb, rt))"
| "call_handler H M (IsFunctionHandler f v re cb) str rt =
     (if String_match str re then
        do { rt' \<leftarrow> invoke H M cb v rt; Some (True, IsFunctionHandler f v re cb, rt') }
      else if String_match str (Some f) then
        do { pr \<leftarrow> PROMPT_REGEX H;
             Some (False, IsFunctionHandler f (Some (String_trim (String_replace str pr []))) re cb, rt) }
      else Some (False, IsFunctionHandler f v re cb, rt))"

text \<open>The \<^verbatim>\<open>else\<close> branch of \<open>onStdout\<close>, reached when the queue is empty and when the
  closure at the front returned true.\<close>

definition onStdout_else :: "host \<Rightarrow> string \<Rightarrow> string \<Rightarrow> runtime \<Rightarrow> runtime option" where
  "onStdout_else H M data rt =
     do { flush \<leftarrow> (if stdoutHandled rt then Some True
                     else do { sr \<leftarrow> SYNC_REGEX H M; Some (String_match data (Some sr)) });
          if flush
          then Some ((debug (stdoutBuffer rt) rt)\<lparr>stdoutBuffer := Some [], stdoutHandled := False\<rparr>)
          else Some (warn (Some data) rt) }"

definition onStdout :: "host \<Rightarrow> string \<Rightarrow> string \<Rightarrow> runtime \<Rightarrow> runtime option" where
  "onStdout H M data rt =
     (case inputHandler rt of
        [] \<Rightarrow> onStdout_else H M data rt
      | h # rest \<Rightarrow>
          do { (r, h', rt1) \<leftarrow> call_handler H M h data (rt\<lparr>inputHandler := rest\<rparr>);
               if \<not> r
               then Some (rt1\<lparr>inputHandler := h' # inputHandler rt1,
                               stdoutHandled := True,
                               stdoutBuffer := Some (toString (stdoutBuffer rt1) @ data)\<rparr>)
               else onStdout_else H M data rt1 })"

text \<open>\<^verbatim>\<open>Array.prototype.some\<close> over the event handlers: in order, up to the first one
  that returns true.\<close>

fun some_handler :: "event_handler list \<Rightarrow> string \<Rightarrow> runtime \<Rightarrow> bool \<times> runtime" where
  "some_handler [] data rt = (False, rt)"
| "some_handler (h # hs) data rt =
     (let rt1 = rt\<lparr>eventCalls := eventCalls rt @ [(tag h, data)]\<rparr>
      in if accepts h data then (True, rt1) else some_handler hs data rt1)"

definition onStderr :: "string \<Rightarrow> runtime \<Rightarrow> runtime" where
  "onStderr data rt = (let (r, rt1) = some_handler (eventHandler rt) data rt in warn (Some data) rt1)"

text \<open>The exit code is a number, or \<^verbatim>\<open>null\<close> when a signal ended the process.\<close>

definition onExit :: "nat option \<Rightarrow> runtime \<Rightarrow> runtime option" where
  "onExit code rt =
     (let rt1 = debug (Some (''Runtime: '' @ processName rt @ '' exited with code: ''
                   @ (case code of None \<Rightarrow> ''null'' | Some n \<Rightarrow> decimal n))) rt
      in emit ''exit'' rt1)"

text \<open>\<open>connected\<close> and \<open>killed\<close> are the two properties of the process object that
  \<open>onError\<close> reads. Its \<open>emit\<close> throws when no listener waits for \<open>error\<close>; the message
  has been logged by then.\<close>

definition onError :: "string \<Rightarrow> bool \<Rightarrow> bool \<Rightarrow> runtime \<Rightarrow> runtime option" where
  "onError msg connected killed rt =
     (let msg1 = (if \<not> connected
                  then msg @ [newline] @ ''Could not connect to '' @ [squote] @ processName rt @ [squote] @ ''.''
                  else msg);
          msg2 = (if killed
                  then msg1 @ [newline] @ ''Process '' @ [squote] @ processName rt @ [squote] @ '' was killed.''
                  else msg1);
          rt1 = debug (Some msg2) rt
      in emit ''error'' rt1)"

section \<open>Control/Expression.ts\<close>

definition isFuncRegex :: "host \<Rightarrow> string \<Rightarrow> pattern option" where
  "isFuncRegex H expression =
     RegExp H (''^.*'' @ [squote] @ expression @ [squote] @ '' is a (?:''
                 @ [backslash] @ ''S+ )?function from the file .*$'')"

definition isFunction :: "host \<Rightarrow> string \<Rightarrow> string \<Rightarrow> callback \<Rightarrow> runtime \<Rightarrow> runtime option" where
  "isFunction H M expression cb rt =
     do { f \<leftarrow> isFuncRegex H expression;
          let rt1 = addInputHandler (IsFunctionHandler f None None cb) rt;
          let rt2 = send (''which '' @ expression) rt1;
          let (ident, rt3) = sync M rt2;
          re \<leftarrow> syncRegEx H M ident;
          Some (assign_last re rt3) }"

definition Expression_evaluate ::
  "host \<Rightarrow> string \<Rightarrow> string \<Rightarrow> bool \<Rightarrow> callback \<Rightarrow> runtime \<Rightarrow> runtime option" where
  "Expression_evaluate H M expression isConsole cb rt =
     (if isConsole
      then (let command = drop 1 expression in evaluate H M command cb rt)
      else isFunction H M expression (IfUndefinedEvaluate expression cb) rt)"

section \<open>Sessions as sequences of calls and events\<close>

text \<open>
  The host runs one thing at a time: a call of a method of the session or of
  \<open>Expression\<close> by an upper layer, or an event of the process (a line on either stream,
  its exit, an error). A history of the session is a list of such actions, and \<open>run\<close>
  performs them in order, as long as no call throws (\<open>None\<close>); it also collects the
  tokens that \<open>sync\<close> returned to the \<open>Sync\<close> actions of the history itself.
\<close>

datatype action =
    Send string
  | Sync
  | WaitSync callback
  | WaitSend string callback
  | Evaluate string callback
  | AddFolder string
  | Disconnect
  | AddInputHandler handler
  | AddEventHandler event_handler
  | ClearInputHandlers
  | ClearEventHandlers
  | SetLog bool
  | On string nat
  | IsFunction string callback
  | ExpressionEvaluate string bool callback
  | Stdout string
  | Stderr string
  | Exit "nat option"
  | Error string bool bool

fun perform :: "host \<Rightarrow> string \<Rightarrow> action \<Rightarrow> runtime \<Rightarrow> (nat list \<times> runtime) option" where
  "perform H M (Send cmd) rt = Some ([], send cmd rt)"
| "perform H M Sync rt = (let (ident, rt') = sync M rt in Some ([ident], rt'))"
| "perform H M (WaitSync cb) rt = map_option (Pair []) (waitSync H M cb rt)"
| "perform H M (WaitSend cmd cb) rt = map_option (Pair []) (waitSend H M cmd cb rt)"
| "perform H M (Evaluate expression cb) rt = map_option (Pair []) (evaluate H M expression cb rt)"
| "perform H M (AddFolder sourceFolder) rt = Some ([], addFolder sourceFolder rt)"
| "perform H M Disconnect rt = Some ([], disconnect rt)"
| "perform H M (AddInputHandler h) rt = Some ([], addInputHandler h rt)"
| "perform H M (AddEventHandler h) rt = Some ([], addEventHandler h rt)"
| "perform H M ClearInputHandlers rt = Some ([], clearInputHandlers rt)"
| "perform H M ClearEventHandlers rt = Some ([], clearEventHandlers rt)"
| "perform H M (SetLog l) rt = Some ([], setLog l rt)"
| "perform H M (On name k) rt = Some ([], on name k rt)"
| "perform H M (IsFunction expression cb) rt = map_option (Pair []) (isFunction H M expression cb rt)"
| "perform H M (ExpressionEvaluate expression isConsole cb) rt =
     map_option (Pair []) (Expression_evaluate H M expression isConsole cb rt)"
| "perform H M (Stdout data) rt = map_option (Pair []) (onStdout H M data rt)"
| "perform H M (Stderr data) rt = Some ([], onStderr data rt)"
| "perform H M (Exit code) rt = map_option (Pair []) (onExit code rt)"
| "perform H M (Error msg connected killed) rt =
     map_option (Pair []) (onError msg connected killed rt)"

fun run :: "host \<Rightarrow> string \<Rightarrow> action list \<Rightarrow> runtime \<Rightarrow> (nat list \<times> runtime) option" where
  "run H M [] rt = Some ([], rt)"
| "run H M (a # as) rt =
     do { (ts, rt1) \<leftarrow> perform H M a rt;
          (ts', rt2) \<leftarrow> run H M as rt1;
          Some (ts @ ts', rt2) }"

section \<open>Vocabulary of the properties\<close>

text \<open>A character that a pattern source takes literally: any but the syntax characters.\<close>

definition PatternCharacter :: "char \<Rightarrow> bool" where
  "PatternCharacter c = (c \<notin> set ''^$.*+?()[]{}|'' \<and> c \<noteq> backslash)"

text \<open>The prompt, \<open>k\<close> times.\<close>

definition prompts :: "nat \<Rightarrow> string" where
  "prompts k = concat (replicate k PROMPT)"

text \<open>The pattern that \<open>PROMPT_REGEX\<close> denotes.\<close>

definition prompt_pattern :: regex where
  "prompt_pattern = seq [Bol, Star (seq (map Chr PROMPT))]"

text \<open>What both closures make of a content line: the prompts removed, then trimmed.\<close>

definition stripped :: "string \<Rightarrow> string" where
  "stripped str = String_trim (String_replace str (exec prompt_pattern) [])"

text \<open>Joining with line feeds.\<close>

fun join_lines :: "string list \<Rightarrow> string" where
  "join_lines [] = []"
| "join_lines [x] = x"
| "join_lines (x # y # ys) = x @ [newline] @ join_lines (y # ys)"

text \<open>The text that the closure of \<open>evaluate\<close> has collected from content lines.\<close>

definition collected :: "string list \<Rightarrow> string" where
  "collected ls = join_lines (filter (\<lambda>s. s \<noteq> []) (map stripped ls))"

text \<open>
  One step of the closure of \<open>isFunction\<close> on a content line, and its iteration:
  every matching line overwrites the variable \<open>val\<close>.
\<close>

definition note_line :: "pattern \<Rightarrow> string option \<Rightarrow> string \<Rightarrow> string option" where
  "note_line f v l = (if String_match l (Some f) then Some (stripped l) else v)"

fun recall :: "pattern \<Rightarrow> string option \<Rightarrow> string list \<Rightarrow> string option" where
  "recall f v [] = v"
| "recall f v (l # ls) = recall f (note_line f v l) ls"

text \<open>The descriptor made from the latest of the lines that match the pattern, if any.\<close>

definition remembered :: "pattern option \<Rightarrow> string list \<Rightarrow> string option" where
  "remembered f ls =
     (case rev (filter (\<lambda>l. String_match l f) ls) of
        [] \<Rightarrow> None
      | l # _ \<Rightarrow> Some (stripped l))"




text \<open>In examples: a host whose constructor throws on every source outside the fragment,
  and three event predicates.\<close>

definition no_host :: host where
  "no_host src = None"


definition is_error_line :: "string \<Rightarrow> bool" where
  "is_error_line str = prefix ''error: '' str"

definition is_warning_line :: "string \<Rightarrow> bool" where
  "is_warning_line str = prefix ''warning: '' str"

definition is_any_line :: "string \<Rightarrow> bool" where
  "is_any_line str = True"

text \<open>
  Two results as the specification words them, for comparison with the code: the
  newline-join of the non-empty prompt-stripped content lines, and the first line that
  matches the function pattern, prompt-stripped.
\<close>

definition claimed_text :: "string list \<Rightarrow> string" where
  "claimed_text ls =
     join_lines (filter (\<lambda>s. s \<noteq> [])
       (map (\<lambda>l. String_replace l (exec prompt_pattern) []) ls))"

definition claimed_descriptor :: "pattern option \<Rightarrow> string list \<Rightarrow> string option" where
  "claimed_descriptor f ls =
     (case filter (\<lambda>l. String_match l f) ls of
        [] \<Rightarrow> None
      | l # _ \<Rightarrow> Some (String_replace l (exec prompt_pattern) []))"

text \<open>
  The calls that throw: an error of the process while no listener waits for \<open>error\<close>,
  and a call of \<open>isFunction\<close> (directly, or by \<open>Expression.evaluate\<close> outside the
  console) whose pattern the constructor rejects.
\<close>

fun throws :: "host \<Rightarrow> action \<Rightarrow> runtime \<Rightarrow> bool" where
  "throws H (Error msg connected killed) rt = (filter (\<lambda>l. fst l = ''error'') (listeners rt) = [])"
| "throws H (IsFunction expression cb) rt = (isFuncRegex H expression = None)"
| "throws H (ExpressionEvaluate expression isConsole cb) rt =
     (\<not> isConsole \<and> isFuncRegex H expression = None)"
| "throws H a rt = False"

text \<open>
  The event that brings a line of the primary stream, and the event of the exit. The
  exit is the \<open>close\<close> event of the process, which comes once, after its streams have
  ended; so no line follows it in a history, and no second exit. An error of the process
  comes from a spawn that failed, since nothing in the sources kills the process or
  sends it a message; no line follows it either.
\<close>

fun is_stdout :: "action \<Rightarrow> bool" where
  "is_stdout (Stdout data) = True"
| "is_stdout a = False"

fun is_exit :: "action \<Rightarrow> bool" where
  "is_exit (Exit code) = True"
| "is_exit a = False"

text \<open>
  From one state of the session to a later one: \<open>sync\<close> has returned the tokens \<open>new\<close>
  in between, in that order; they are strictly increasing, none is below the command
  counter of the earlier state and each is below the counter of the later one.
\<close>

definition advance :: "runtime \<Rightarrow> runtime \<Rightarrow> nat list \<Rightarrow> bool" where
  "advance rt rt' new =
     (issued rt' = issued rt @ new
      \<and> commandNumber rt \<le> commandNumber rt'
      \<and> sorted_wrt (<) new
      \<and> list_all (\<lambda>t. commandNumber rt \<le> t \<and> t < commandNumber rt') new)"


text \<open>One step of the closure of \<open>evaluate\<close> on a content line, and its iteration.\<close>

definition append_line :: "string \<Rightarrow> string \<Rightarrow> string" where
  "append_line v l =
     (if stripped l \<noteq> [] then (if v \<noteq> [] then v @ [newline] else v) @ stripped l else v)"

fun gather :: "string \<Rightarrow> string list \<Rightarrow> string" where
  "gather v [] = v"
| "gather v (l # ls) = gather (append_line v l) ls"

text \<open>The group that the prompt pattern repeats.\<close>

abbreviation prompt_group :: regex where
  "prompt_group \<equiv> seq (map Chr PROMPT)"

section \<open>Facts about patterns\<close>

lemma parse_plain:
  "list_all PatternCharacter w \<Longrightarrow> parse (w @ cs) cur stk = parse cs (rev (map Chr w) @ cur) stk"
  by (induction w arbitrary: cur) (auto simp: PatternCharacter_def backslash_def)

lemma digit_plain: "d < 10 \<Longrightarrow> PatternCharacter (digit d)"
proof -
  assume "d < 10"
  then have "d \<in> set [0..<10]" by simp
  then show ?thesis
    unfolding PatternCharacter_def digit_def backslash_def
    by (simp add: upt_conv_Cons) (elim disjE; simp)
qed

lemma decimal_plain: "list_all PatternCharacter (decimal n)"
proof (induction n rule: decimal.induct)
  case (1 n)
  show ?case
  proof (cases "n < 10")
    case True
    then show ?thesis by (simp add: decimal.simps[of n] digit_plain)
  next
    case False
    with 1 show ?thesis by (simp add: decimal.simps[of n] digit_plain)
  qed
qed

lemma parse_prompt:
  "parse (''^(?:'' @ PROMPT @ '')*'') [] [] = Some (seq [Bol, Star (seq (map Chr PROMPT))])"
  by (simp add: PROMPT_def quantify_def backslash_def seq_def)

lemma PROMPT_REGEX_eq: "PROMPT_REGEX H = Some (exec (seq [Bol, Star (seq (map Chr PROMPT))]))"
  by (simp only: PROMPT_REGEX_def RegExp_def parse_prompt option.case)

lemma parse_sync:
  assumes "list_all PatternCharacter M"
  shows "parse (''^(?:'' @ PROMPT @ '')*'' @ syncString M n @ ''$'') [] []
    = Some (seq ([Bol, Star (seq (map Chr PROMPT))] @ map Chr (syncString M n) @ [Eol]))"
proof -
  have p: "list_all PatternCharacter (syncString M n)"
    using assms decimal_plain by (simp add: syncString_def SYNC_def PatternCharacter_def backslash_def)
  have "parse (''^(?:'' @ PROMPT @ '')*'' @ syncString M n @ ''$'') [] []
      = parse (syncString M n @ ''$'') [Star (seq (map Chr PROMPT)), Bol] []"
    by (simp add: PROMPT_def quantify_def backslash_def seq_def)
  also have "\<dots> = parse ''$'' (rev (map Chr (syncString M n)) @ [Star (seq (map Chr PROMPT)), Bol]) []"
    using p by (rule parse_plain)
  also have "\<dots> = Some (seq ([Bol, Star (seq (map Chr PROMPT))] @ map Chr (syncString M n) @ [Eol]))"
    by (simp add: rev_map)
  finally show ?thesis .
qed

lemma syncRegEx_eq:
  assumes "list_all PatternCharacter M"
  shows "syncRegEx H M n
    = Some (exec (seq ([Bol, Star (seq (map Chr PROMPT))] @ map Chr (syncString M n) @ [Eol])))"
  by (simp only: syncRegEx_def RegExp_def parse_sync[OF assms] option.case)

lemma parse_SYNC:
  assumes "list_all PatternCharacter M"
  shows "parse (''^(?:'' @ PROMPT @ '')*s*'' @ SYNC M) [] []
    = Some (seq ([Bol, Star (seq (map Chr PROMPT)), Star (Chr CHR ''s'')] @ map Chr (SYNC M)))"
proof -
  have p: "list_all PatternCharacter (SYNC M)"
    using assms by (simp add: SYNC_def PatternCharacter_def backslash_def)
  have "parse (''^(?:'' @ PROMPT @ '')*s*'' @ SYNC M) [] []
      = parse (SYNC M @ []) [Star (Chr CHR ''s''), Star (seq (map Chr PROMPT)), Bol] []"
    by (simp add: PROMPT_def quantify_def backslash_def seq_def)
  also have "\<dots> = parse [] (rev (map Chr (SYNC M)) @ [Star (Chr CHR ''s''), Star (seq (map Chr PROMPT)), Bol]) []"
    using p by (rule parse_plain)
  also have "\<dots> = Some (seq ([Bol, Star (seq (map Chr PROMPT)), Star (Chr CHR ''s'')] @ map Chr (SYNC M)))"
    by (simp add: rev_map)
  finally show ?thesis .
qed

lemma SYNC_REGEX_eq:
  assumes "list_all PatternCharacter M"
  shows "SYNC_REGEX H M
    = Some (exec (seq ([Bol, Star (seq (map Chr PROMPT)), Star (Chr CHR ''s'')] @ map Chr (SYNC M))))"
  by (simp only: SYNC_REGEX_def RegExp_def parse_SYNC[OF assms] option.case)

lemma seq_Cons [simp]: "seq (r # rs) = Seq r (seq rs)" and seq_Nil [simp]: "seq [] = Eps"
  by (simp_all add: seq_def)

lemma rmatch_lits:
  "rmatch (seq (map Chr w @ rs)) (i, s) =
     (if prefix w s then rmatch (seq rs) (i + length w, drop (length w) s) else [])"
proof (induction w arbitrary: i s)
  case Nil
  then show ?case by simp
next
  case (Cons c w)
  show ?case
  proof (cases s)
    case Nil
    then show ?thesis by simp
  next
    case (Cons x xs)
    then show ?thesis using Cons.IH[of "Suc i" xs] by simp
  qed
qed

lemma rmatch_lits_only:
  "rmatch (seq (map Chr w)) (i, s) = (if prefix w s then [(i + length w, drop (length w) s)] else [])"
  using rmatch_lits[of w "[]" i s] by simp

lemma first_match_None:
  "first_match re str is = None \<longleftrightarrow> (\<forall>i\<in>set is. rmatch re (i, drop i str) = [])"
  by (induction "is") (auto split: list.splits)

lemma exec_None: "exec re str = None \<longleftrightarrow> (\<forall>i \<le> length str. rmatch re (i, drop i str) = [])"
  by (auto simp: exec_def first_match_None less_Suc_eq_le)

lemma rmatch_Bol: "rmatch (seq (Bol # rs)) (i, s) = (if i = 0 then rmatch (seq rs) (0, s) else [])"
  by simp

lemma exec_Bol_None: "exec (seq (Bol # rs)) str = None \<longleftrightarrow> rmatch (seq rs) (0, str) = []"
  by (auto simp: exec_None)

lemma exec_Bol: "exec (seq (Bol # rs)) str =
   (case rmatch (seq rs) (0, str) of [] \<Rightarrow> None | (j, rest) # _ \<Rightarrow> Some (0, j))"
proof -
  have "first_match (seq (Bol # rs)) str (map Suc is) = None" for "is"
    by (simp add: first_match_None)
  moreover have "[0..<Suc (length str)] = 0 # map Suc [0..<length str]"
    by (simp add: upt_conv_Cons map_Suc_upt del: upt_Suc)
  ultimately show ?thesis
    by (simp add: exec_def split: list.splits del: upt_Suc)
qed


lemma length_PROMPT: "length PROMPT = 7" by (simp add: PROMPT_def)

lemma repeat_prompt:
  "length s \<le> n \<Longrightarrow> repeat n (rmatch prompt_group) (i, s) =
     (if prefix PROMPT s then repeat (n - 1) (rmatch prompt_group) (i + 7, drop 7 s) @ [(i, s)] else [(i, s)])"
proof (cases n)
  case 0
  assume "length s \<le> n"
  with 0 have "s = []" by simp
  with 0 show ?thesis by (simp add: PROMPT_def)
next
  case (Suc m)
  assume "length s \<le> n"
  show ?thesis
  proof (cases "prefix PROMPT s")
    case True
    then have "s \<noteq> []" by (auto simp: PROMPT_def)
    with True Suc show ?thesis by (simp add: rmatch_lits_only length_PROMPT)
  next
    case False
    with Suc show ?thesis by (simp add: rmatch_lits_only)
  qed
qed

lemma repeat_nonempty: "repeat n f st \<noteq> []"
  by (cases n) simp_all

lemma prompts_Suc: "prompts (Suc k) = PROMPT @ prompts k"
  by (simp add: prompts_def)

lemma prompts_0: "prompts 0 = []"
  by (simp add: prompts_def)

lemma set_repeat_prompt:
  "length s \<le> n \<Longrightarrow> (j, r) \<in> set (repeat n (rmatch prompt_group) (i, s)) \<longleftrightarrow> (\<exists>k. s = prompts k @ r \<and> j = i + 7 * k)"
proof (induction n arbitrary: i s)
  case 0
  then have s: "s = []" by simp
  have "\<And>k. [] = prompts k @ r \<Longrightarrow> k = 0"
    by (case_tac k) (auto simp: prompts_Suc PROMPT_def)
  then show ?case using s by (auto simp: prompts_0 intro: exI[of _ 0])
next
  case (Suc n)
  show ?case
  proof (cases "prefix PROMPT s")
    case True
    then obtain t where t: "s = PROMPT @ t" by (auto simp: prefix_def)
    then have len: "length t \<le> n" using Suc.prems by (simp add: length_PROMPT)
    have d: "drop 7 s = t" using t by (simp add: length_PROMPT)
    have "(j, r) \<in> set (repeat (Suc n) (rmatch prompt_group) (i, s)) \<longleftrightarrow>
          (j, r) \<in> set (repeat n (rmatch prompt_group) (i + 7, t)) \<or> (j, r) = (i, s)"
      using repeat_prompt[OF Suc.prems, of i] True d by auto
    also have "\<dots> \<longleftrightarrow> (\<exists>k. t = prompts k @ r \<and> j = i + 7 + 7 * k) \<or> (j, r) = (i, s)"
      using Suc.IH[OF len] by simp
    also have "\<dots> \<longleftrightarrow> (\<exists>k. s = prompts k @ r \<and> j = i + 7 * k)"
    proof
      assume "(\<exists>k. t = prompts k @ r \<and> j = i + 7 + 7 * k) \<or> (j, r) = (i, s)"
      then show "\<exists>k. s = prompts k @ r \<and> j = i + 7 * k"
      proof
        assume "\<exists>k. t = prompts k @ r \<and> j = i + 7 + 7 * k"
        then obtain k where "t = prompts k @ r" "j = i + 7 + 7 * k" by blast
        then have "s = prompts (Suc k) @ r \<and> j = i + 7 * Suc k" using t by (simp add: prompts_Suc)
        then show ?thesis by blast
      next
        assume "(j, r) = (i, s)"
        then have "s = prompts 0 @ r \<and> j = i + 7 * 0" by (simp add: prompts_0)
        then show ?thesis by blast
      qed
    next
      assume "\<exists>k. s = prompts k @ r \<and> j = i + 7 * k"
      then obtain k where k: "s = prompts k @ r" "j = i + 7 * k" by blast
      show "(\<exists>k. t = prompts k @ r \<and> j = i + 7 + 7 * k) \<or> (j, r) = (i, s)"
      proof (cases k)
        case 0
        with k show ?thesis by (simp add: prompts_0)
      next
        case (Suc k')
        with k t have "t = prompts k' @ r \<and> j = i + 7 + 7 * k'" by (simp add: prompts_Suc)
        then show ?thesis by blast
      qed
    qed
    finally show ?thesis .
  next
    case False
    have "s = prompts k @ r \<and> j = i + 7 * k \<longleftrightarrow> k = 0 \<and> (j, r) = (i, s)" for k
    proof (cases k)
      case 0
      then show ?thesis by (auto simp: prompts_0)
    next
      case (Suc k')
      then show ?thesis using False by (auto simp: prompts_Suc)
    qed
    then show ?thesis using repeat_prompt[OF Suc.prems, of i] False by auto
  qed
qed

lemma hd_repeat_prompt:
  "length s \<le> n \<Longrightarrow> \<exists>k r. hd (repeat n (rmatch prompt_group) (i, s)) = (i + 7 * k, r) \<and> s = prompts k @ r \<and> \<not> prefix PROMPT r"
proof (induction n arbitrary: i s)
  case 0
  then show ?case by (auto simp: PROMPT_def prompts_0 intro!: exI[of _ 0])
next
  case (Suc n)
  show ?case
  proof (cases "prefix PROMPT s")
    case True
    then obtain t where t: "s = PROMPT @ t" by (auto simp: prefix_def)
    then have len: "length t \<le> n" using Suc.prems by (simp add: length_PROMPT)
    have d: "drop 7 s = t" using t by (simp add: length_PROMPT)
    from Suc.IH[OF len, of "i + 7"] obtain k r where
      kr: "hd (repeat n (rmatch prompt_group) (i + 7, t)) = (i + 7 + 7 * k, r)" "t = prompts k @ r" "\<not> prefix PROMPT r"
      by blast
    have "hd (repeat (Suc n) (rmatch prompt_group) (i, s)) = hd (repeat n (rmatch prompt_group) (i + 7, t))"
      using repeat_prompt[OF Suc.prems, of i] True d by (simp add: repeat_nonempty)
    with kr t have "hd (repeat (Suc n) (rmatch prompt_group) (i, s)) = (i + 7 * Suc k, r) \<and> s = prompts (Suc k) @ r \<and> \<not> prefix PROMPT r"
      by (simp add: prompts_Suc)
    then show ?thesis by blast
  next
    case False
    then have "hd (repeat (Suc n) (rmatch prompt_group) (i, s)) = (i + 7 * 0, s) \<and> s = prompts 0 @ s \<and> \<not> prefix PROMPT s"
      using repeat_prompt[OF Suc.prems, of i] by (simp add: prompts_0 del: repeat.simps)
    then show ?thesis by blast
  qed
qed

lemma length_prompts: "length (prompts k) = 7 * k"
  by (induction k) (simp_all add: prompts_0 prompts_Suc length_PROMPT)

lemma strip_char:
  "\<exists>k. s = prompts k @ String_replace s (exec (seq [Bol, Star prompt_group])) [] \<and> \<not> prefix PROMPT (String_replace s (exec (seq [Bol, Star prompt_group])) [])"
proof -
  obtain k r where kr: "hd (repeat (length s) (rmatch prompt_group) (0, s)) = (0 + 7 * k, r)" "s = prompts k @ r" "\<not> prefix PROMPT r"
    using hd_repeat_prompt[of s "length s" 0] by blast
  have ne: "repeat (length s) (rmatch prompt_group) (0, s) \<noteq> []" by (rule repeat_nonempty)
  have "rmatch (seq [Star prompt_group]) (0, s) = repeat (length s) (rmatch prompt_group) (0, s)"
    by simp
  then have "exec (seq [Bol, Star prompt_group]) s = Some (0, 7 * k)"
    using kr(1) ne by (cases "repeat (length s) (rmatch prompt_group) (0, s)") (auto simp: exec_Bol simp del: seq_Cons rmatch.simps)
  then have "String_replace s (exec (seq [Bol, Star prompt_group])) [] = r"
    using kr(2) by (simp add: String_replace_def length_prompts)
  with kr(2,3) show ?thesis by auto
qed

lemma match_sync:
  "exec (seq ([Bol, Star prompt_group] @ map Chr mk @ [Eol])) s \<noteq> None \<longleftrightarrow> (\<exists>k. s = prompts k @ mk)"
proof -
  have a: "rmatch (seq (map Chr mk @ [Eol])) (j, r) \<noteq> [] \<longleftrightarrow> r = mk" for j r
    by (auto simp: rmatch_lits prefix_def)
  have "exec (seq ([Bol, Star prompt_group] @ map Chr mk @ [Eol])) s \<noteq> None \<longleftrightarrow>
       (\<exists>st \<in> set (repeat (length s) (rmatch prompt_group) (0, s)). rmatch (seq (map Chr mk @ [Eol])) st \<noteq> [])"
    using exec_Bol_None[of "Star prompt_group # map Chr mk @ [Eol]" s] by (simp del: rmatch.simps(1-7) seq_Cons add: seq_Cons[of "Star prompt_group"] seq_Cons[of Bol]) 
  also have "\<dots> \<longleftrightarrow> (\<exists>j. (j, mk) \<in> set (repeat (length s) (rmatch prompt_group) (0, s)))"
    using a by (metis prod.collapse)
  also have "\<dots> \<longleftrightarrow> (\<exists>k. s = prompts k @ mk)"
    by (simp add: set_repeat_prompt)
  finally show ?thesis .
qed

lemma prompts_add: "prompts (a + b) = prompts a @ prompts b"
  by (simp add: prompts_def replicate_add)

lemma prompts_cancel:
  assumes "prompts a @ x = prompts b @ y" and "\<not> prefix PROMPT x" and "\<not> prefix PROMPT y"
  shows "x = y"
proof -
  have aux: "x = y" if "a \<le> b" "prompts a @ x = prompts b @ y" "\<not> prefix PROMPT x" for a b x y
  proof -
    from that(1) obtain d where d: "b = a + d" by (auto simp: le_iff_add)
    with that(2) have x: "x = prompts d @ y" by (simp add: prompts_add)
    show ?thesis
    proof (cases d)
      case 0
      with x show ?thesis by (simp add: prompts_0)
    next
      case (Suc d')
      with x have "prefix PROMPT x" by (simp add: prompts_Suc)
      with that(3) show ?thesis by simp
    qed
  qed
  show ?thesis
  proof (cases "a \<le> b")
    case True
    then show ?thesis using aux assms by blast
  next
    case False
    then have "b \<le> a" by simp
    then have "y = x" using aux[of b a y x] assms by simp
    then show ?thesis by simp
  qed
qed

lemma strip_prompts: "String_replace (prompts k @ s) (exec prompt_pattern) [] = String_replace s (exec prompt_pattern) []"
proof -
  let ?R = "\<lambda>s. String_replace s (exec prompt_pattern) []"
  obtain j where j: "s = prompts j @ ?R s" "\<not> prefix PROMPT (?R s)"
    using strip_char[of s] by (auto simp: prompt_pattern_def)
  obtain m where m: "prompts k @ s = prompts m @ ?R (prompts k @ s)" "\<not> prefix PROMPT (?R (prompts k @ s))"
    using strip_char[of "prompts k @ s"] by (auto simp: prompt_pattern_def)
  have "prompts (k + j) @ ?R s = prompts m @ ?R (prompts k @ s)"
    using j(1) m(1) by (simp add: prompts_add)
  then have "?R s = ?R (prompts k @ s)"
    using j(2) m(2) by (rule prompts_cancel)
  then show ?thesis by simp
qed

lemma strip_prompts_exact:
  assumes "\<not> prefix PROMPT s"
  shows "String_replace (prompts k @ s) (exec prompt_pattern) [] = s"
proof -
  obtain m where m: "prompts k @ s = prompts m @ String_replace (prompts k @ s) (exec prompt_pattern) []"
      "\<not> prefix PROMPT (String_replace (prompts k @ s) (exec prompt_pattern) [])"
    using strip_char[of "prompts k @ s"] by (auto simp: prompt_pattern_def)
  from prompts_cancel[OF m(1) assms m(2)] show ?thesis by simp
qed

lemma String_match_sync:
  assumes "list_all PatternCharacter M"
  shows "String_match line (syncRegEx H M t) \<longleftrightarrow> (\<exists>k. line = prompts k @ syncString M t)"
  using match_sync[of "syncString M t" line]
  by (simp add: String_match_def syncRegEx_eq[OF assms] del: seq_Cons)

lemma decimal_nonempty: "decimal n \<noteq> []" "[] \<noteq> decimal n"
  by (subst decimal.simps, simp)+

lemma digit_inj: "a < 10 \<Longrightarrow> b < 10 \<Longrightarrow> digit a = digit b \<Longrightarrow> a = b"
proof -
  assume "a < 10" "b < 10" "digit a = digit b"
  moreover have "distinct ''0123456789''" by simp
  ultimately show "a = b"
    unfolding digit_def by (subst (asm) nth_eq_iff_index_eq) simp_all
qed

lemma decimal_inj: "decimal n = decimal m \<Longrightarrow> n = m"
proof (induction n arbitrary: m rule: decimal.induct)
  case (1 n)
  show ?case
  proof (cases "n < 10")
    case n: True
    show ?thesis
    proof (cases "m < 10")
      case True
      with n "1.prems" show ?thesis
        by (simp add: decimal.simps[of n] decimal.simps[of m] digit_inj)
    next
      case False
      with n "1.prems" show ?thesis
        by (simp add: decimal.simps[of n] decimal.simps[of m] decimal_nonempty)
    qed
  next
    case n: False
    show ?thesis
    proof (cases "m < 10")
      case True
      with n "1.prems" show ?thesis
        by (simp add: decimal.simps[of n] decimal.simps[of m] decimal_nonempty)
    next
      case False
      with n "1.prems" have e: "decimal (n div 10) = decimal (m div 10)" "digit (n mod 10) = digit (m mod 10)"
        by (simp_all add: decimal.simps[of n] decimal.simps[of m])
      from "1.IH"[OF n e(1)] have "n div 10 = m div 10" .
      moreover from e(2) have "n mod 10 = m mod 10"
        by (intro digit_inj) simp_all
      ultimately show ?thesis
        by (metis div_mult_mod_eq)
    qed
  qed
qed

lemma syncString_no_prompt: "\<not> prefix PROMPT (syncString M t)"
  by (simp add: syncString_def SYNC_def PROMPT_def)

lemma syncString_inj: "syncString M t = syncString M t' \<Longrightarrow> t = t'"
  by (simp add: syncString_def decimal_inj)

section \<open>Facts about the session\<close>

lemma PROMPT_REGEX_pattern: "PROMPT_REGEX H = Some (exec prompt_pattern)"
  by (simp add: PROMPT_REGEX_eq prompt_pattern_def)

lemma syncRegEx_Some: "list_all PatternCharacter M \<Longrightarrow> \<exists>re. syncRegEx H M n = Some re"
  by (simp add: syncRegEx_eq)

lemma SYNC_REGEX_Some: "list_all PatternCharacter M \<Longrightarrow> \<exists>re. SYNC_REGEX H M = Some re"
  by (simp add: SYNC_REGEX_eq)

lemma send_fields [simp]:
  "commandNumber (send cmd rt) = Suc (commandNumber rt)"
  "inputHandler (send cmd rt) = inputHandler rt"
  "eventHandler (send cmd rt) = eventHandler rt"
  "invoked (send cmd rt) = invoked rt"
  "eventCalls (send cmd rt) = eventCalls rt"
  "emitted (send cmd rt) = emitted rt"
  "stdin (send cmd rt) = stdin rt @ [cmd @ [newline]]"
  "stdoutHandled (send cmd rt) = stdoutHandled rt"
  "stdoutBuffer (send cmd rt) = stdoutBuffer rt"
  "issued (send cmd rt) = issued rt"
  "listeners (send cmd rt) = listeners rt"
  "notified (send cmd rt) = notified rt"
  by (simp_all add: send_def debug_def Let_def)

lemma sync_fields:
  "fst (sync M rt) = commandNumber rt"
  "commandNumber (snd (sync M rt)) = Suc (commandNumber rt)"
  "inputHandler (snd (sync M rt)) = inputHandler rt"
  "eventHandler (snd (sync M rt)) = eventHandler rt"
  "invoked (snd (sync M rt)) = invoked rt"
  "eventCalls (snd (sync M rt)) = eventCalls rt"
  "emitted (snd (sync M rt)) = emitted rt"
  "stdin (snd (sync M rt)) = stdin rt @ [echo (syncString M (commandNumber rt)) @ [newline]]"
  "issued (snd (sync M rt)) = issued rt @ [commandNumber rt]"
  "listeners (snd (sync M rt)) = listeners rt"
  "notified (snd (sync M rt)) = notified rt"
  by (simp_all add: sync_def Let_def)

lemma assign_last_fields [simp]:
  "commandNumber (assign_last re rt) = commandNumber rt"
  "eventHandler (assign_last re rt) = eventHandler rt"
  "invoked (assign_last re rt) = invoked rt"
  "eventCalls (assign_last re rt) = eventCalls rt"
  "emitted (assign_last re rt) = emitted rt"
  "stdin (assign_last re rt) = stdin rt"
  "issued (assign_last re rt) = issued rt"
  "listeners (assign_last re rt) = listeners rt"
  "notified (assign_last re rt) = notified rt"
  by (simp_all add: assign_last_def)

lemma assign_last_snoc:
  "inputHandler rt = q @ [h] \<Longrightarrow> inputHandler (assign_last re rt) = q @ [assign re h]"
  by (simp add: assign_last_def)

lemma evaluate_effect:
  assumes "list_all PatternCharacter M"
  shows "\<exists>rt'. evaluate H M expression cb rt = Some rt'
      \<and> inputHandler rt' = inputHandler rt @ [EvaluateHandler [] (syncRegEx H M (Suc (commandNumber rt))) cb]
      \<and> commandNumber rt' = commandNumber rt + 2
      \<and> invoked rt' = invoked rt
      \<and> eventCalls rt' = eventCalls rt
      \<and> emitted rt' = emitted rt
      \<and> eventHandler rt' = eventHandler rt
      \<and> stdin rt' = stdin rt @ [expression @ [newline], echo (syncString M (Suc (commandNumber rt))) @ [newline]]
      \<and> issued rt' = issued rt @ [Suc (commandNumber rt)]
      \<and> listeners rt' = listeners rt
      \<and> notified rt' = notified rt"
proof -
  obtain re where re: "syncRegEx H M (Suc (commandNumber rt)) = Some re"
    using syncRegEx_Some[OF assms] by blast
  show ?thesis
    by (simp add: evaluate_def Let_def split_beta sync_fields re assign_last_snoc)
qed

lemma onStdout_else_effect:
  assumes "list_all PatternCharacter M"
  shows "\<exists>rt'. onStdout_else H M data rt = Some rt'
      \<and> inputHandler rt' = inputHandler rt
      \<and> commandNumber rt' = commandNumber rt
      \<and> invoked rt' = invoked rt
      \<and> eventCalls rt' = eventCalls rt
      \<and> emitted rt' = emitted rt
      \<and> eventHandler rt' = eventHandler rt
      \<and> stdin rt' = stdin rt
      \<and> issued rt' = issued rt"
proof -
  obtain sr where sr: "SYNC_REGEX H M = Some sr"
    using SYNC_REGEX_Some[OF assms] by blast
  show ?thesis
    by (simp add: onStdout_else_def sr debug_def warn_def Let_def)
qed

lemma invoke_Caller_fields:
  "invoke H M (Caller k) info rt = Some (rt\<lparr>invoked := invoked rt @ [(k, info)]\<rparr>)"
  by simp

lemma onStdout_evaluate_content:
  assumes "inputHandler rt = EvaluateHandler v re cb # q" and "\<not> String_match l re"
  shows "\<exists>rt'. onStdout H M l rt = Some rt'
      \<and> inputHandler rt' = EvaluateHandler (append_line v l) re cb # q
      \<and> commandNumber rt' = commandNumber rt
      \<and> invoked rt' = invoked rt
      \<and> eventCalls rt' = eventCalls rt
      \<and> emitted rt' = emitted rt
      \<and> eventHandler rt' = eventHandler rt
      \<and> stdin rt' = stdin rt"
  using assms
  by (simp add: onStdout_def PROMPT_REGEX_pattern append_line_def stripped_def Let_def)

lemma onStdout_evaluate_marker:
  assumes "list_all PatternCharacter M"
    and "inputHandler rt = EvaluateHandler v re (Caller k) # q" and "String_match mk re"
  shows "\<exists>rt'. onStdout H M mk rt = Some rt'
      \<and> inputHandler rt' = q
      \<and> commandNumber rt' = commandNumber rt
      \<and> invoked rt' = invoked rt @ [(k, Some v)]
      \<and> eventCalls rt' = eventCalls rt
      \<and> emitted rt' = emitted rt
      \<and> eventHandler rt' = eventHandler rt
      \<and> stdin rt' = stdin rt"
proof -
  let ?rt1 = "rt\<lparr>inputHandler := q, invoked := invoked rt @ [(k, Some v)]\<rparr>"
  have "onStdout H M mk rt = onStdout_else H M mk ?rt1"
    using assms(2,3) by (simp add: onStdout_def)
  then show ?thesis
    using onStdout_else_effect[OF assms(1), of H mk ?rt1] by auto
qed

lemma join_lines_Cons:
  "join_lines (x # xs) = (if xs = [] then x else x @ [newline] @ join_lines xs)"
  by (cases xs) simp_all

lemma gather_join:
  "gather v ls =
     (let F = filter (\<lambda>s. s \<noteq> []) (map stripped ls)
      in if v = [] then join_lines F else if F = [] then v else v @ [newline] @ join_lines F)"
  by (induction ls arbitrary: v) (simp_all add: Let_def append_line_def join_lines_Cons)

lemma gather_collected: "gather [] ls = collected ls"
  by (simp add: gather_join collected_def Let_def)

lemma run_append:
  "run H M (as @ bs) rt =
     do { (ts, rt1) \<leftarrow> run H M as rt; (ts', rt2) \<leftarrow> run H M bs rt1; Some (ts @ ts', rt2) }"
  by (induction as arbitrary: rt) (auto split: Option.bind_splits)

lemma run_append_Some:
  "run H M as rt = Some (ts, rt1) \<Longrightarrow> run H M bs rt1 = Some (ts', rt2) \<Longrightarrow>
   run H M (as @ bs) rt = Some (ts @ ts', rt2)"
  by (simp add: run_append)

lemma run_evaluate_content:
  assumes "inputHandler rt = EvaluateHandler v re cb # q"
    and "list_all (\<lambda>l. \<not> String_match l re) ls"
  shows "\<exists>rt'. run H M (map Stdout ls) rt = Some ([], rt')
      \<and> inputHandler rt' = EvaluateHandler (gather v ls) re cb # q
      \<and> invoked rt' = invoked rt"
  using assms
proof (induction ls arbitrary: rt v)
  case Nil
  then show ?case by simp
next
  case (Cons l ls)
  from Cons.prems obtain rt1 where rt1: "onStdout H M l rt = Some rt1"
      "inputHandler rt1 = EvaluateHandler (append_line v l) re cb # q" "invoked rt1 = invoked rt"
    using onStdout_evaluate_content[of rt v re cb q l H M] by auto
  from Cons.IH[OF rt1(2)] Cons.prems(2) obtain rt' where
      "run H M (map Stdout ls) rt1 = Some ([], rt')"
      "inputHandler rt' = EvaluateHandler (gather (append_line v l) ls) re cb # q"
      "invoked rt' = invoked rt1"
    by auto
  with rt1 show ?case by simp
qed





lemma parse_isFunc_plain:
  assumes "list_all PatternCharacter name"
  shows "parse (''^.*'' @ [squote] @ name @ [squote] @ '' is a (?:''
           @ [backslash] @ ''S+ )?function from the file .*$'') [] [] \<noteq> None"
proof -
  have "parse (''^.*'' @ [squote] @ name @ [squote] @ '' is a (?:''
           @ [backslash] @ ''S+ )?function from the file .*$'') [] []
      = parse (name @ [squote] @ '' is a (?:'' @ [backslash] @ ''S+ )?function from the file .*$'')
          [Chr squote, Star Dot, Bol] []"
    by (simp add: quantify_def backslash_def squote_def)
  also have "\<dots> = parse ([squote] @ '' is a (?:'' @ [backslash] @ ''S+ )?function from the file .*$'')
          (rev (map Chr name) @ [Chr squote, Star Dot, Bol]) []"
    using assms by (rule parse_plain)
  also have "\<dots> \<noteq> None"
    by (simp add: quantify_def backslash_def squote_def)
  finally show ?thesis .
qed

lemma isFuncRegex_plain:
  assumes "list_all PatternCharacter name"
  shows "isFuncRegex H name \<noteq> None"
  using parse_isFunc_plain[OF assms]
  by (simp only: isFuncRegex_def RegExp_def split: option.splits) simp

lemma isFunction_effect:
  assumes "list_all PatternCharacter M" and "isFuncRegex H name = Some f"
  shows "\<exists>rt'. isFunction H M name cb rt = Some rt'
      \<and> inputHandler rt' = inputHandler rt @ [IsFunctionHandler f None (syncRegEx H M (Suc (commandNumber rt))) cb]
      \<and> commandNumber rt' = commandNumber rt + 2
      \<and> invoked rt' = invoked rt
      \<and> stdin rt' = stdin rt @ [(''which '' @ name) @ [newline], echo (syncString M (Suc (commandNumber rt))) @ [newline]]"
proof -
  obtain re where re: "syncRegEx H M (Suc (commandNumber rt)) = Some re"
    using syncRegEx_Some[OF assms(1)] by blast
  show ?thesis
    by (simp add: isFunction_def assms(2) addInputHandler_def Let_def split_beta sync_fields re assign_last_snoc)
qed

lemma onStdout_isFunction_content:
  assumes "inputHandler rt = IsFunctionHandler f v re cb # q" and "\<not> String_match l re"
  shows "\<exists>rt'. onStdout H M l rt = Some rt'
      \<and> inputHandler rt' = IsFunctionHandler f (note_line f v l) re cb # q
      \<and> invoked rt' = invoked rt"
  using assms
  by (simp add: onStdout_def PROMPT_REGEX_pattern note_line_def stripped_def Let_def)

lemma onStdout_isFunction_marker:
  assumes "list_all PatternCharacter M"
    and "inputHandler rt = IsFunctionHandler f v re (Caller k) # q" and "String_match mk re"
  shows "\<exists>rt'. onStdout H M mk rt = Some rt'
      \<and> inputHandler rt' = q
      \<and> invoked rt' = invoked rt @ [(k, v)]"
proof -
  let ?rt1 = "rt\<lparr>inputHandler := q, invoked := invoked rt @ [(k, v)]\<rparr>"
  have "onStdout H M mk rt = onStdout_else H M mk ?rt1"
    using assms(2,3) by (simp add: onStdout_def)
  then show ?thesis
    using onStdout_else_effect[OF assms(1), of H mk ?rt1] by auto
qed

lemma run_isFunction_content:
  assumes "inputHandler rt = IsFunctionHandler f v re cb # q"
    and "list_all (\<lambda>l. \<not> String_match l re) ls"
  shows "\<exists>rt'. run H M (map Stdout ls) rt = Some ([], rt')
      \<and> inputHandler rt' = IsFunctionHandler f (recall f v ls) re cb # q
      \<and> invoked rt' = invoked rt"
  using assms
proof (induction ls arbitrary: rt v)
  case Nil
  then show ?case by simp
next
  case (Cons l ls)
  from Cons.prems obtain rt1 where rt1: "onStdout H M l rt = Some rt1"
      "inputHandler rt1 = IsFunctionHandler f (note_line f v l) re cb # q" "invoked rt1 = invoked rt"
    using onStdout_isFunction_content[of rt f v re cb q l H M] by auto
  from Cons.IH[OF rt1(2)] Cons.prems(2) obtain rt' where
      "run H M (map Stdout ls) rt1 = Some ([], rt')"
      "inputHandler rt' = IsFunctionHandler f (recall f (note_line f v l) ls) re cb # q"
      "invoked rt' = invoked rt1"
    by auto
  with rt1 show ?case by simp
qed

lemma recall_latest:
  "recall f v ls =
     (case rev (filter (\<lambda>l. String_match l (Some f)) ls) of [] \<Rightarrow> v | l # _ \<Rightarrow> Some (stripped l))"
  by (induction ls arbitrary: v) (auto simp: note_line_def split: list.splits)

lemma recall_remembered: "recall f None ls = remembered (Some f) ls"
  by (simp add: recall_latest remembered_def)

lemma some_handler_calls:
  "eventCalls (snd (some_handler hs data rt)) =
     eventCalls rt @ map (\<lambda>h. (tag h, data))
       (takeWhile (\<lambda>h. \<not> accepts h data) hs @ take 1 (dropWhile (\<lambda>h. \<not> accepts h data) hs))"
  by (induction hs arbitrary: rt) (simp_all add: Let_def)

lemma some_handler_logger:
  "logger (snd (some_handler hs data rt)) = logger rt"
  by (induction hs arbitrary: rt) (simp_all add: Let_def)

lemma addEventHandler_fields [simp]:
  "eventHandler (addEventHandler h rt) = eventHandler rt @ [h]"
  "eventCalls (addEventHandler h rt) = eventCalls rt"
  "logger (addEventHandler h rt) = logger rt"
  by (simp_all add: addEventHandler_def)

lemma Runtime_new_fields:
  "commandNumber (Runtime_new p f l) = 1"
  "inputHandler (Runtime_new p f l) = []"
  "eventHandler (Runtime_new p f l) = []"
  "invoked (Runtime_new p f l) = []"
  "eventCalls (Runtime_new p f l) = []"
  "emitted (Runtime_new p f l) = []"
  "stdoutHandled (Runtime_new p f l) = False"
  "stdoutBuffer (Runtime_new p f l) = None"
  "stdin (Runtime_new p f l) = [(''addpath('' @ [squote] @ f @ [squote] @ '')'') @ [newline]]"
  "issued (Runtime_new p f l) = []"
  "listeners (Runtime_new p f l) = []"
  "notified (Runtime_new p f l) = []"
  by (simp_all add: Runtime_new_def addFolder_def clearEventHandlers_def clearInputHandlers_def
        connect_def setLog_def debug_def Let_def)

lemma onStderr_logger: "logger (onStderr data rt) = logger rt @ [(Warn, Some data)]"
  by (simp add: onStderr_def split_beta warn_def Let_def some_handler_logger)

lemma onStderr_eventCalls:
  "eventCalls (onStderr data rt) = eventCalls (snd (some_handler (eventHandler rt) data rt))"
  by (simp add: onStderr_def split_beta warn_def Let_def)

lemma addInputHandler_fields [simp]:
  "inputHandler (addInputHandler h rt) = inputHandler rt @ [h]"
  "invoked (addInputHandler h rt) = invoked rt"
  "emitted (addInputHandler h rt) = emitted rt"
  by (simp_all add: addInputHandler_def)

lemma Runtime_new_logger:
  "logger (Runtime_new p f False) =
     [(Log, Some (''Runtime: connecting to '' @ [squote] @ p @ [squote] @ ''.'')),
      (Log, Some (p @ '':1> addpath('' @ [squote] @ f @ [squote] @ '')''))]"
  by (simp add: Runtime_new_def addFolder_def clearEventHandlers_def clearInputHandlers_def
        connect_def setLog_def debug_def send_def Let_def decimal.simps digit_def)

lemma onStdout_empty_flush:
  assumes "SYNC_REGEX H M = Some sr" and "inputHandler rt = []"
    and "stdoutHandled rt \<or> String_match data (Some sr)"
  shows "map_option logger (onStdout H M data rt) = Some (logger rt @ [(Log, stdoutBuffer rt)])"
  using assms by (auto simp: onStdout_def onStdout_else_def debug_def Let_def)



section \<open>Tokens, callbacks and events along a history\<close>

lemma advance_same:
  "issued rt' = issued rt \<Longrightarrow> commandNumber rt \<le> commandNumber rt' \<Longrightarrow> advance rt rt' []"
  by (simp add: advance_def)

lemma advance_trans:
  assumes "advance a b n1" and "advance b c n2"
  shows "advance a c (n1 @ n2)"
proof -
  have "sorted_wrt (<) (n1 @ n2)"
    using assms by (fastforce simp: advance_def sorted_wrt_append list_all_iff)
  moreover have "list_all (\<lambda>t. commandNumber a \<le> t \<and> t < commandNumber c) (n1 @ n2)"
    using assms by (fastforce simp: advance_def list_all_iff)
  ultimately show ?thesis
    using assms by (simp add: advance_def)
qed

lemma evaluate_advance:
  assumes "list_all PatternCharacter M"
  shows "\<exists>rt'. evaluate H M e cb rt = Some rt' \<and> advance rt rt' [Suc (commandNumber rt)]"
  using evaluate_effect[OF assms, of H e cb rt] by (auto simp: advance_def)

lemma waitSync_effect:
  assumes "list_all PatternCharacter M"
  shows "\<exists>rt'. waitSync H M cb rt = Some rt'
      \<and> commandNumber rt' = Suc (commandNumber rt)
      \<and> issued rt' = issued rt @ [commandNumber rt]"
proof -
  obtain re where re: "syncRegEx H M (commandNumber rt) = Some re"
    using syncRegEx_Some[OF assms] by blast
  show ?thesis
    by (simp add: waitSync_def addInputHandler_def Let_def split_beta sync_fields re)
qed

lemma waitSync_advance:
  assumes "list_all PatternCharacter M"
  shows "\<exists>rt'. waitSync H M cb rt = Some rt' \<and> advance rt rt' [commandNumber rt]"
  using waitSync_effect[OF assms, of H cb rt] by (auto simp: advance_def)

lemma waitSend_advance:
  assumes "list_all PatternCharacter M"
  shows "\<exists>rt'. waitSend H M cmd cb rt = Some rt' \<and> advance rt rt' [Suc (commandNumber rt)]"
  using waitSync_effect[OF assms, of H cb "send cmd rt"] by (auto simp: advance_def waitSend_def)

lemma isFunction_advance:
  assumes "list_all PatternCharacter M" and "isFuncRegex H e \<noteq> None"
  shows "\<exists>rt'. isFunction H M e cb rt = Some rt' \<and> advance rt rt' [Suc (commandNumber rt)]"
proof -
  obtain f where f: "isFuncRegex H e = Some f"
    using assms(2) by blast
  obtain re where re: "syncRegEx H M (Suc (commandNumber rt)) = Some re"
    using syncRegEx_Some[OF assms(1)] by blast
  show ?thesis
    by (simp add: isFunction_def f addInputHandler_def Let_def split_beta sync_fields re advance_def)
qed

lemma invoke_advance:
  assumes "list_all PatternCharacter M"
  shows "\<exists>rt' new. invoke H M cb info rt = Some rt' \<and> advance rt rt' new"
proof (induction cb arbitrary: info rt)
  case (Caller k)
  have "advance rt (rt\<lparr>invoked := invoked rt @ [(k, info)]\<rparr>) []"
    by (simp add: advance_def)
  then show ?case by auto
next
  case (IfUndefinedEvaluate e cb)
  show ?case
  proof (cases info)
    case None
    then show ?thesis
      using evaluate_advance[OF assms, of H e cb rt] by auto
  next
    case (Some i)
    then show ?thesis
      using IfUndefinedEvaluate.IH[of info rt] by simp
  qed
qed

lemma advance_queue [simp]:
  "advance (rt\<lparr>inputHandler := q\<rparr>) rt' new = advance rt rt' new"
  "advance rt (rt'\<lparr>inputHandler := q\<rparr>) new = advance rt rt' new"
  "advance rt (rt'\<lparr>stdoutHandled := b\<rparr>) new = advance rt rt' new"
  "advance rt (rt'\<lparr>stdoutBuffer := s\<rparr>) new = advance rt rt' new"
  by (simp_all add: advance_def)

lemma call_handler_advance:
  assumes "list_all PatternCharacter M"
  shows "\<exists>r h' rt' new. call_handler H M h str rt = Some (r, h', rt') \<and> advance rt rt' new"
proof -
  have same: "advance rt rt []"
    by (simp add: advance_def)
  show ?thesis
  proof (cases h)
    case (EvaluateHandler v re cb)
    obtain rt' new where "invoke H M cb (Some v) rt = Some rt'" "advance rt rt' new"
      using invoke_advance[OF assms] by blast
    with EvaluateHandler same show ?thesis
      by (auto simp: PROMPT_REGEX_pattern Let_def)
  next
    case (WaitSyncHandler re cb)
    obtain rt' new where "invoke H M cb None rt = Some rt'" "advance rt rt' new"
      using invoke_advance[OF assms] by blast
    with WaitSyncHandler same show ?thesis
      by auto
  next
    case (IsFunctionHandler f v re cb)
    obtain rt' new where "invoke H M cb v rt = Some rt'" "advance rt rt' new"
      using invoke_advance[OF assms] by blast
    with IsFunctionHandler same show ?thesis
      by (auto simp: PROMPT_REGEX_pattern)
  qed
qed

lemma onStdout_else_advance:
  assumes "list_all PatternCharacter M"
  shows "\<exists>rt'. onStdout_else H M data rt = Some rt' \<and> advance rt rt' []"
  using onStdout_else_effect[OF assms, of H data rt] by (auto simp: advance_def)

lemma onStdout_advance:
  assumes "list_all PatternCharacter M"
  shows "\<exists>rt' new. onStdout H M data rt = Some rt' \<and> advance rt rt' new"
proof (cases "inputHandler rt")
  case Nil
  then show ?thesis
    using onStdout_else_advance[OF assms, of H data rt] by (auto simp: onStdout_def)
next
  case (Cons h rest)
  obtain r h' rt1 new where c: "call_handler H M h data (rt\<lparr>inputHandler := rest\<rparr>) = Some (r, h', rt1)"
      "advance rt rt1 new"
    using call_handler_advance[OF assms, of H h data "rt\<lparr>inputHandler := rest\<rparr>"] by auto
  show ?thesis
  proof (cases r)
    case True
    obtain rt' where e: "onStdout_else H M data rt1 = Some rt'" "advance rt1 rt' []"
      using onStdout_else_advance[OF assms] by blast
    have "advance rt rt' (new @ [])"
      using c(2) e(2) by (rule advance_trans)
    then show ?thesis
      using True Cons c(1) e(1) by (auto simp: onStdout_def)
  next
    case False
    then show ?thesis
      using Cons c by (auto simp: onStdout_def)
  qed
qed

lemma some_handler_same:
  "issued (snd (some_handler hs data rt)) = issued rt"
  "commandNumber (snd (some_handler hs data rt)) = commandNumber rt"
  "invoked (snd (some_handler hs data rt)) = invoked rt"
  "emitted (snd (some_handler hs data rt)) = emitted rt"
  "notified (snd (some_handler hs data rt)) = notified rt"
  "listeners (snd (some_handler hs data rt)) = listeners rt"
  by (induction hs arbitrary: rt) (simp_all add: Let_def)

lemma emit_Some:
  "emit name rt = Some rt' \<Longrightarrow>
     issued rt' = issued rt \<and> commandNumber rt' = commandNumber rt \<and> invoked rt' = invoked rt
     \<and> inputHandler rt' = inputHandler rt
     \<and> emitted rt' = emitted rt @ [name]
     \<and> notified rt' = notified rt @ filter (\<lambda>l. fst l = name) (listeners rt)"
  by (auto simp: emit_def Let_def split: if_splits)

lemma emit_exit: "\<exists>rt'. emit ''exit'' rt = Some rt'"
  by (simp add: emit_def Let_def)

lemma emit_error_None: "emit ''error'' rt = None \<longleftrightarrow> filter (\<lambda>l. fst l = ''error'') (listeners rt) = []"
  by (simp add: emit_def Let_def)

lemma debug_fields [simp]:
  "issued (debug s rt) = issued rt"
  "commandNumber (debug s rt) = commandNumber rt"
  "invoked (debug s rt) = invoked rt"
  "inputHandler (debug s rt) = inputHandler rt"
  "emitted (debug s rt) = emitted rt"
  "notified (debug s rt) = notified rt"
  "listeners (debug s rt) = listeners rt"
  by (simp_all add: debug_def Let_def)

lemma onExit_effect:
  "\<exists>rt'. onExit code rt = Some rt'
     \<and> issued rt' = issued rt \<and> commandNumber rt' = commandNumber rt \<and> invoked rt' = invoked rt
     \<and> inputHandler rt' = inputHandler rt
     \<and> emitted rt' = emitted rt @ [''exit'']
     \<and> notified rt' = notified rt @ filter (\<lambda>l. fst l = ''exit'') (listeners rt)"
proof -
  let ?rt1 = "debug (Some (''Runtime: '' @ processName rt @ '' exited with code: ''
                   @ (case code of None \<Rightarrow> ''null'' | Some n \<Rightarrow> decimal n))) rt"
  obtain rt' where e: "emit ''exit'' ?rt1 = Some rt'"
    using emit_exit by blast
  from emit_Some[OF e] e show ?thesis
    by (simp add: onExit_def Let_def)
qed

lemma onError_Some:
  "onError msg c k rt = Some rt' \<Longrightarrow>
     issued rt' = issued rt \<and> commandNumber rt' = commandNumber rt \<and> invoked rt' = invoked rt
     \<and> inputHandler rt' = inputHandler rt
     \<and> emitted rt' = emitted rt @ [''error'']
     \<and> notified rt' = notified rt @ filter (\<lambda>l. fst l = ''error'') (listeners rt)"
  by (auto simp: onError_def Let_def dest!: emit_Some)

lemma onError_None:
  "onError msg c k rt = None \<longleftrightarrow> filter (\<lambda>l. fst l = ''error'') (listeners rt) = []"
  by (simp add: onError_def Let_def emit_error_None)

lemma perform_advance:
  assumes "list_all PatternCharacter M" and "\<not> throws H a rt"
  shows "\<exists>ts rt' new. perform H M a rt = Some (ts, rt') \<and> advance rt rt' new \<and> subseq ts new"
proof (cases a)
  case (Send cmd)
  then show ?thesis by (auto simp: advance_def)
next
  case Sync
  have "advance rt (snd (sync M rt)) [commandNumber rt]"
    by (simp add: advance_def sync_fields)
  then show ?thesis
    using Sync by (auto simp: split_beta sync_fields)
next
  case (WaitSync cb)
  then show ?thesis
    using waitSync_advance[OF assms(1), of H cb rt] by auto
next
  case (WaitSend cmd cb)
  then show ?thesis
    using waitSend_advance[OF assms(1), of H cmd cb rt] by auto
next
  case (Evaluate e cb)
  then show ?thesis
    using evaluate_advance[OF assms(1), of H e cb rt] by auto
next
  case (AddFolder f)
  then show ?thesis by (auto simp: advance_def addFolder_def)
next
  case Disconnect
  then show ?thesis by (auto simp: advance_def disconnect_def)
next
  case (AddInputHandler h)
  then show ?thesis by (auto simp: advance_def addInputHandler_def)
next
  case (AddEventHandler h)
  then show ?thesis by (auto simp: advance_def addEventHandler_def)
next
  case ClearInputHandlers
  then show ?thesis by (auto simp: advance_def clearInputHandlers_def)
next
  case ClearEventHandlers
  then show ?thesis by (auto simp: advance_def clearEventHandlers_def)
next
  case (SetLog l)
  then show ?thesis by (auto simp: advance_def setLog_def)
next
  case (On name k)
  then show ?thesis by (auto simp: advance_def on_def)
next
  case (IsFunction e cb)
  then show ?thesis
    using isFunction_advance[OF assms(1), of H e cb rt] assms(2) by auto
next
  case (ExpressionEvaluate e c cb)
  show ?thesis
  proof (cases c)
    case True
    then show ?thesis
      using ExpressionEvaluate evaluate_advance[OF assms(1), of H "drop 1 e" cb rt]
      by (auto simp: Expression_evaluate_def)
  next
    case False
    then show ?thesis
      using ExpressionEvaluate assms(2)
        isFunction_advance[OF assms(1), of H e "IfUndefinedEvaluate e cb" rt]
      by (auto simp: Expression_evaluate_def)
  qed
next
  case (Stdout data)
  then show ?thesis
    using onStdout_advance[OF assms(1), of H data rt] by auto
next
  case (Stderr data)
  have "advance rt (onStderr data rt) []"
    by (simp add: advance_def onStderr_def split_beta warn_def Let_def some_handler_same)
  then show ?thesis
    using Stderr by auto
next
  case (Exit code)
  obtain rt' where "onExit code rt = Some rt'" "issued rt' = issued rt"
      "commandNumber rt' = commandNumber rt"
    using onExit_effect[of code rt] by blast
  then show ?thesis
    using Exit by (auto simp: advance_def)
next
  case (Error msg c k)
  then have "onError msg c k rt \<noteq> None"
    using assms(2) by (simp add: onError_None)
  then obtain rt' where r: "onError msg c k rt = Some rt'"
    by blast
  from onError_Some[OF r] r Error show ?thesis
    by (auto simp: advance_def)
qed

lemma perform_throws:
  "throws H a rt \<Longrightarrow> perform H M a rt = None"
proof (cases a)
  case (ExpressionEvaluate e c cb)
  assume "throws H a rt"
  then show ?thesis
    using ExpressionEvaluate by (simp add: Expression_evaluate_def isFunction_def)
qed (simp_all add: onError_None isFunction_def)

lemma perform_None:
  assumes "list_all PatternCharacter M"
  shows "perform H M a rt = None \<longleftrightarrow> throws H a rt"
proof
  assume n: "perform H M a rt = None"
  show "throws H a rt"
  proof (rule ccontr)
    assume "\<not> throws H a rt"
    from perform_advance[OF assms this] n show False
      by auto
  qed
next
  assume "throws H a rt"
  then show "perform H M a rt = None"
    by (rule perform_throws)
qed

lemma run_None:
  assumes "list_all PatternCharacter M" and "run H M acts rt = None"
  shows "\<exists>pre a post ts r. acts = pre @ a # post \<and> run H M pre rt = Some (ts, r) \<and> throws H a r"
  using assms(2)
proof (induction acts arbitrary: rt)
  case Nil
  then show ?case by simp
next
  case (Cons a acts)
  show ?case
  proof (cases "perform H M a rt")
    case None
    then have "throws H a rt"
      using perform_None[OF assms(1)] by blast
    then have "a # acts = [] @ a # acts \<and> run H M [] rt = Some ([], rt) \<and> throws H a rt"
      by simp
    then show ?thesis by blast
  next
    case (Some p)
    obtain ts rt1 where p: "p = (ts, rt1)"
      by (cases p)
    have "run H M acts rt1 = None"
      using Cons.prems Some p by (cases "run H M acts rt1") auto
    from Cons.IH[OF this] obtain pre b post ts' r where
      "acts = pre @ b # post" "run H M pre rt1 = Some (ts', r)" "throws H b r"
      by blast
    then have "a # acts = (a # pre) @ b # post \<and> run H M (a # pre) rt = Some (ts @ ts', r) \<and> throws H b r"
      using Some p by simp
    then show ?thesis by blast
  qed
qed

lemma run_advance:
  assumes "list_all PatternCharacter M" and "run H M acts rt = Some (toks, rt')"
  shows "\<exists>new. advance rt rt' new \<and> subseq toks new"
  using assms(2)
proof (induction acts arbitrary: rt toks)
  case Nil
  then show ?case by (auto simp: advance_def)
next
  case (Cons a acts)
  from Cons.prems obtain ts rt1 ts' where
    p: "perform H M a rt = Some (ts, rt1)" and r: "run H M acts rt1 = Some (ts', rt')"
    and t: "toks = ts @ ts'"
    by (auto simp: Option.bind_eq_Some_conv)
  have "\<not> throws H a rt"
    using p perform_throws[of H a rt M] by auto
  then obtain n1 where n1: "advance rt rt1 n1" "subseq ts n1"
    using perform_advance[OF assms(1), of H a rt] p by auto
  obtain n2 where n2: "advance rt1 rt' n2" "subseq ts' n2"
    using Cons.IH[OF r] by blast
  have "advance rt rt' (n1 @ n2)"
    using n1(1) n2(1) by (rule advance_trans)
  moreover have "subseq toks (n1 @ n2)"
    unfolding t using n1(2) n2(2) by (rule list_emb_append_mono)
  ultimately show ?case by blast
qed

lemma waitSync_quiet:
  assumes "waitSync H M cb rt = Some rt'"
  shows "invoked rt' = invoked rt \<and> emitted rt' = emitted rt \<and> notified rt' = notified rt"
  using assms
  by (auto simp: waitSync_def Let_def split_beta sync_fields Option.bind_eq_Some_conv
      addInputHandler_def)

lemma evaluate_quiet:
  assumes "evaluate H M e cb rt = Some rt'"
  shows "invoked rt' = invoked rt \<and> emitted rt' = emitted rt \<and> notified rt' = notified rt"
  using assms
  by (auto simp: evaluate_def Let_def split_beta sync_fields Option.bind_eq_Some_conv)

lemma isFunction_quiet:
  assumes "isFunction H M e cb rt = Some rt'"
  shows "invoked rt' = invoked rt \<and> emitted rt' = emitted rt \<and> notified rt' = notified rt"
  using assms
  by (auto simp: isFunction_def Let_def split_beta sync_fields Option.bind_eq_Some_conv
      addInputHandler_def)

lemma perform_quiet:
  assumes "\<not> is_stdout a" and "perform H M a rt = Some (ts, rt')"
  shows "invoked rt' = invoked rt"
    and "\<not> is_exit a \<Longrightarrow> filter (\<lambda>e. e = ''exit'') (emitted rt') = filter (\<lambda>e. e = ''exit'') (emitted rt)"
    and "\<not> is_exit a \<Longrightarrow> filter (\<lambda>l. fst l = ''exit'') (notified rt') = filter (\<lambda>l. fst l = ''exit'') (notified rt)"
proof -
  have "invoked rt' = invoked rt
    \<and> (\<not> is_exit a \<longrightarrow> filter (\<lambda>e. e = ''exit'') (emitted rt') = filter (\<lambda>e. e = ''exit'') (emitted rt)
         \<and> filter (\<lambda>l. fst l = ''exit'') (notified rt') = filter (\<lambda>l. fst l = ''exit'') (notified rt))"
  proof (cases a)
    case (Send cmd)
    then show ?thesis using assms(2) by auto
  next
    case Sync
    then show ?thesis using assms(2) by (auto simp: split_beta sync_fields)
  next
    case (WaitSync cb)
    then show ?thesis using assms(2) waitSync_quiet[of H M cb rt rt'] by auto
  next
    case (WaitSend cmd cb)
    then show ?thesis using assms(2) waitSync_quiet[of H M cb "send cmd rt" rt']
      by (auto simp: waitSend_def)
  next
    case (Evaluate e cb)
    then show ?thesis using assms(2) evaluate_quiet[of H M e cb rt rt'] by auto
  next
    case (AddFolder f)
    then show ?thesis using assms(2) by (auto simp: addFolder_def)
  next
    case Disconnect
    then show ?thesis using assms(2) by (auto simp: disconnect_def)
  next
    case (AddInputHandler h)
    then show ?thesis using assms(2) by (auto simp: addInputHandler_def)
  next
    case (AddEventHandler h)
    then show ?thesis using assms(2) by (auto simp: addEventHandler_def)
  next
    case ClearInputHandlers
    then show ?thesis using assms(2) by (auto simp: clearInputHandlers_def)
  next
    case ClearEventHandlers
    then show ?thesis using assms(2) by (auto simp: clearEventHandlers_def)
  next
    case (SetLog l)
    then show ?thesis using assms(2) by (auto simp: setLog_def)
  next
    case (On name k)
    then show ?thesis using assms(2) by (auto simp: on_def)
  next
    case (IsFunction e cb)
    then show ?thesis using assms(2) isFunction_quiet[of H M e cb rt rt'] by auto
  next
    case (ExpressionEvaluate e c cb)
    then show ?thesis
      using assms(2) isFunction_quiet[of H M e "IfUndefinedEvaluate e cb" rt rt']
        evaluate_quiet[of H M "drop 1 e" cb rt rt']
      by (auto simp: Expression_evaluate_def split: if_splits)
  next
    case (Stdout data)
    then show ?thesis using assms(1) by simp
  next
    case (Stderr data)
    then show ?thesis
      using assms(2) by (auto simp: onStderr_def split_beta warn_def Let_def some_handler_same)
  next
    case (Exit code)
    then show ?thesis
      using assms(2) onExit_effect[of code rt] by auto
  next
    case (Error msg c k)
    then have "onError msg c k rt = Some rt'"
      using assms(2) by auto
    from onError_Some[OF this] Error show ?thesis
      by simp
  qed
  then show "invoked rt' = invoked rt"
    and "\<not> is_exit a \<Longrightarrow> filter (\<lambda>e. e = ''exit'') (emitted rt') = filter (\<lambda>e. e = ''exit'') (emitted rt)"
    and "\<not> is_exit a \<Longrightarrow> filter (\<lambda>l. fst l = ''exit'') (notified rt') = filter (\<lambda>l. fst l = ''exit'') (notified rt)"
    by simp_all
qed

lemma run_quiet:
  assumes "list_all (\<lambda>a. \<not> is_stdout a) acts" and "run H M acts rt = Some (ts, rt')"
  shows "invoked rt' = invoked rt"
  using assms
proof (induction acts arbitrary: rt ts)
  case Nil
  then show ?case by simp
next
  case (Cons a acts)
  from Cons.prems(2) obtain t1 rt1 t2 where
    p: "perform H M a rt = Some (t1, rt1)" and r: "run H M acts rt1 = Some (t2, rt')"
    by (auto simp: Option.bind_eq_Some_conv)
  have "invoked rt1 = invoked rt"
    using perform_quiet(1)[OF _ p] Cons.prems(1) by simp
  moreover have "invoked rt' = invoked rt1"
    using Cons.IH[OF _ r] Cons.prems(1) by simp
  ultimately show ?case by simp
qed

lemma run_no_exit:
  assumes "list_all (\<lambda>a. \<not> is_stdout a \<and> \<not> is_exit a) acts" and "run H M acts rt = Some (ts, rt')"
  shows "filter (\<lambda>e. e = ''exit'') (emitted rt') = filter (\<lambda>e. e = ''exit'') (emitted rt)
       \<and> filter (\<lambda>l. fst l = ''exit'') (notified rt') = filter (\<lambda>l. fst l = ''exit'') (notified rt)"
  using assms
proof (induction acts arbitrary: rt ts)
  case Nil
  then show ?case by simp
next
  case (Cons a acts)
  from Cons.prems(2) obtain t1 rt1 t2 where
    p: "perform H M a rt = Some (t1, rt1)" and r: "run H M acts rt1 = Some (t2, rt')"
    by (auto simp: Option.bind_eq_Some_conv)
  have a: "\<not> is_stdout a" "\<not> is_exit a"
    using Cons.prems(1) by simp_all
  have "filter (\<lambda>e. e = ''exit'') (emitted rt1) = filter (\<lambda>e. e = ''exit'') (emitted rt)"
      "filter (\<lambda>l. fst l = ''exit'') (notified rt1) = filter (\<lambda>l. fst l = ''exit'') (notified rt)"
    using perform_quiet(2,3)[OF a(1) p a(2)] by simp_all
  moreover have "filter (\<lambda>e. e = ''exit'') (emitted rt') = filter (\<lambda>e. e = ''exit'') (emitted rt1)
       \<and> filter (\<lambda>l. fst l = ''exit'') (notified rt') = filter (\<lambda>l. fst l = ''exit'') (notified rt1)"
    using Cons.IH[OF _ r] Cons.prems(1) by simp
  ultimately show ?case by simp
qed

lemma tokens_of_five_calls:
  assumes "list_all PatternCharacter M"
  shows "\<exists>rt'. run H M [Sync, Evaluate e cb, WaitSync cb2, WaitSend cmd cb3, Sync] rt
           = Some ([commandNumber rt, commandNumber rt + 6], rt')
      \<and> issued rt' = issued rt @ [commandNumber rt, commandNumber rt + 2, commandNumber rt + 3,
                                   commandNumber rt + 5, commandNumber rt + 6]"
proof -
  let ?r1 = "snd (sync M rt)"
  obtain r2 where r2: "evaluate H M e cb ?r1 = Some r2" "commandNumber r2 = commandNumber ?r1 + 2"
      "issued r2 = issued ?r1 @ [Suc (commandNumber ?r1)]"
    using evaluate_effect[OF assms, of H e cb ?r1] by blast
  obtain r3 where r3: "waitSync H M cb2 r2 = Some r3" "commandNumber r3 = Suc (commandNumber r2)"
      "issued r3 = issued r2 @ [commandNumber r2]"
    using waitSync_effect[OF assms, of H cb2 r2] by blast
  obtain r4 where r4: "waitSync H M cb3 (send cmd r3) = Some r4"
      "commandNumber r4 = Suc (commandNumber (send cmd r3))"
      "issued r4 = issued (send cmd r3) @ [commandNumber (send cmd r3)]"
    using waitSync_effect[OF assms, of H cb3 "send cmd r3"] by blast
  have "run H M [Sync, Evaluate e cb, WaitSync cb2, WaitSend cmd cb3, Sync] rt
           = Some ([commandNumber rt, commandNumber rt + 6], snd (sync M r4))"
    using r2 r3 r4 by (simp add: split_beta sync_fields waitSend_def)
  moreover have "issued (snd (sync M r4)) = issued rt @ [commandNumber rt, commandNumber rt + 2, commandNumber rt + 3,
                                   commandNumber rt + 5, commandNumber rt + 6]"
    using r2 r3 r4 by (simp add: sync_fields)
  ultimately show ?thesis by blast
qed

section \<open>The claims\<close>



text \<open>
  Claim C2, as amended. A call \<open>evaluate(expressionText, callback)\<close> on a session whose
  queue is empty, followed by content lines (none matching the marker of the call's
  token) and then a line matching that marker, invokes the callback exactly once, with
  the newline-join of the content lines that are non-empty after their prompts are
  stripped and their white space is trimmed from both ends. Delivering \<open>ans = 2\<close> and the
  marker yields \<open>ans = 2\<close>; delivering only the marker yields the empty string.

  As the specification words it (prompt-stripped only) the claim fails on a line with
  leading blanks, such as a row of a printed matrix: the closure trims the line.
\<close>

theorem evaluate_delivers_collected_text:
  assumes "list_all PatternCharacter M"
    and "inputHandler rt = []"
    and "list_all (\<lambda>l. \<not> String_match l (syncRegEx H M (Suc (commandNumber rt)))) ls"
    and "String_match mk (syncRegEx H M (Suc (commandNumber rt)))"
  shows "\<exists>rt1 rt2.
      evaluate H M expression (Caller k) rt = Some rt1
      \<and> run H M (map Stdout (ls @ [mk])) rt1 = Some ([], rt2)
      \<and> invoked rt2 = invoked rt @ [(k, Some (collected ls))]
      \<and> inputHandler rt2 = []"
proof -
  let ?re = "syncRegEx H M (Suc (commandNumber rt))"
  obtain rt1 where rt1: "evaluate H M expression (Caller k) rt = Some rt1"
      "inputHandler rt1 = [EvaluateHandler [] ?re (Caller k)]" "invoked rt1 = invoked rt"
    using evaluate_effect[OF assms(1), of H expression "Caller k" rt] assms(2) by auto
  obtain rt' where rt': "run H M (map Stdout ls) rt1 = Some ([], rt')"
      "inputHandler rt' = [EvaluateHandler (gather [] ls) ?re (Caller k)]" "invoked rt' = invoked rt1"
    using run_evaluate_content[OF rt1(2) assms(3), of H M] by blast
  obtain rt2 where rt2: "onStdout H M mk rt' = Some rt2" "inputHandler rt2 = []"
      "invoked rt2 = invoked rt' @ [(k, Some (gather [] ls))]"
    using onStdout_evaluate_marker[OF assms(1) rt'(2) assms(4)] by blast
  have "run H M [Stdout mk] rt' = Some ([], rt2)"
    using rt2(1) by simp
  then have "run H M (map Stdout ls @ [Stdout mk]) rt1 = Some ([] @ [], rt2)"
    using rt'(1) by (rule run_append_Some[rotated])
  then show ?thesis
    using rt1 rt' rt2 by (simp add: gather_collected)
qed

theorem evaluate_delivers_collected_text_witness:
  "list_all PatternCharacter ''octave''
   \<and> inputHandler (Runtime_new ''octave-cli'' ''/w'' False) = []
   \<and> list_all (\<lambda>l. \<not> String_match l
          (syncRegEx no_host ''octave'' (Suc (commandNumber (Runtime_new ''octave-cli'' ''/w'' False)))))
        [''ans = 2'']
   \<and> String_match ''vsc::octave:2''
        (syncRegEx no_host ''octave'' (Suc (commandNumber (Runtime_new ''octave-cli'' ''/w'' False))))
   \<and> (\<exists>rt1 rt2.
        evaluate no_host ''octave'' ''1+1'' (Caller 1) (Runtime_new ''octave-cli'' ''/w'' False) = Some rt1
        \<and> run no_host ''octave'' [Stdout ''ans = 2'', Stdout ''vsc::octave:2''] rt1 = Some ([], rt2)
        \<and> invoked rt2 = [(1, Some ''ans = 2'')])
   \<and> (\<exists>rt1 rt2.
        evaluate no_host ''octave'' ''x = 1;'' (Caller 1) (Runtime_new ''octave-cli'' ''/w'' False) = Some rt1
        \<and> run no_host ''octave'' [Stdout ''vsc::octave:2''] rt1 = Some ([], rt2)
        \<and> invoked rt2 = [(1, Some [])])"
proof -
  let ?rt = "Runtime_new ''octave-cli'' ''/w'' False"
  have h1: "list_all PatternCharacter ''octave''"
    by code_simp
  have h2: "inputHandler ?rt = []"
    by code_simp
  have h3: "list_all (\<lambda>l. \<not> String_match l (syncRegEx no_host ''octave'' (Suc (commandNumber ?rt)))) [''ans = 2'']"
    by code_simp
  have h3': "list_all (\<lambda>l. \<not> String_match l (syncRegEx no_host ''octave'' (Suc (commandNumber ?rt)))) []"
    by simp
  have h4: "String_match ''vsc::octave:2'' (syncRegEx no_host ''octave'' (Suc (commandNumber ?rt)))"
    by code_simp
  have c: "collected [''ans = 2''] = ''ans = 2''" "collected [] = []"
    by code_simp+
  have i: "invoked ?rt = []"
    by code_simp
  from evaluate_delivers_collected_text[OF h1 h2 h3 h4, where expression = "''1+1''" and k = 1] obtain rt1 rt2 where
    "evaluate no_host ''octave'' ''1+1'' (Caller 1) ?rt = Some rt1"
    "run no_host ''octave'' (map Stdout ([''ans = 2''] @ [''vsc::octave:2''])) rt1 = Some ([], rt2)"
    "invoked rt2 = invoked ?rt @ [(1, Some (collected [''ans = 2'']))]"
    by blast
  then have "evaluate no_host ''octave'' ''1+1'' (Caller 1) ?rt = Some rt1
        \<and> run no_host ''octave'' [Stdout ''ans = 2'', Stdout ''vsc::octave:2''] rt1 = Some ([], rt2)
        \<and> invoked rt2 = [(1, Some ''ans = 2'')]"
    by (simp add: c i)
  then have a: "\<exists>rt1 rt2.
        evaluate no_host ''octave'' ''1+1'' (Caller 1) ?rt = Some rt1
        \<and> run no_host ''octave'' [Stdout ''ans = 2'', Stdout ''vsc::octave:2''] rt1 = Some ([], rt2)
        \<and> invoked rt2 = [(1, Some ''ans = 2'')]"
    by blast
  from evaluate_delivers_collected_text[OF h1 h2 h3' h4, where expression = "''x = 1;''" and k = 1] obtain rt3 rt4 where
    "evaluate no_host ''octave'' ''x = 1;'' (Caller 1) ?rt = Some rt3"
    "run no_host ''octave'' (map Stdout ([] @ [''vsc::octave:2''])) rt3 = Some ([], rt4)"
    "invoked rt4 = invoked ?rt @ [(1, Some (collected []))]"
    by blast
  then have "evaluate no_host ''octave'' ''x = 1;'' (Caller 1) ?rt = Some rt3
        \<and> run no_host ''octave'' [Stdout ''vsc::octave:2''] rt3 = Some ([], rt4)
        \<and> invoked rt4 = [(1, Some [])]"
    by (simp add: c i)
  then have b: "\<exists>rt1 rt2.
        evaluate no_host ''octave'' ''x = 1;'' (Caller 1) ?rt = Some rt1
        \<and> run no_host ''octave'' [Stdout ''vsc::octave:2''] rt1 = Some ([], rt2)
        \<and> invoked rt2 = [(1, Some [])]"
    by blast
  show ?thesis
    using h1 h2 h3 h4 a b by blast
qed

theorem evaluate_trims_content_counterexample:
  "map_option (invoked \<circ> snd)
     (run no_host ''octave'' [Evaluate ''x'' (Caller 1), Stdout ''   1   2   3'', Stdout ''vsc::octave:2'']
        (Runtime_new ''octave-cli'' ''/w'' False))
     = Some [(1, Some ''1   2   3'')]
   \<and> claimed_text [''   1   2   3''] = ''   1   2   3''
   \<and> map_option (invoked \<circ> snd)
     (run no_host ''octave'' [Evaluate ''x'' (Caller 1), Stdout ''   1   2   3'', Stdout ''vsc::octave:2'']
        (Runtime_new ''octave-cli'' ''/w'' False))
     \<noteq> Some [(1, Some (claimed_text [''   1   2   3'']))]"
  by code_simp

text \<open>
  Claim C3, as amended. For every \<open>isFunction(name, callback)\<close> call on a session whose
  queue is empty, whatever the name: the pattern "is a function from the file" is built
  around the name as a pattern source. If the pattern constructor rejects it, the call
  throws and the session is as before. Otherwise (always, for a name free of pattern
  syntax characters) the call writes the \<open>which\<close> query and the echo of its marker; the
  enqueued handler tests each line against the pattern and remembers the latest matching
  line, each match overwriting the one before; when the marker for its token arrives,
  the callback receives that line with its prompts stripped and its white space
  trimmed, or \<open>undefined\<close> if no line matched.

  As the specification words it (the first matching line) the claim fails when two
  lines match: the callback receives the second.
\<close>

theorem isFunction_delivers_latest_match:
  assumes "list_all PatternCharacter M"
    and "inputHandler rt = []"
    and "list_all (\<lambda>l. \<not> String_match l (syncRegEx H M (Suc (commandNumber rt)))) ls"
    and "String_match mk (syncRegEx H M (Suc (commandNumber rt)))"
  shows "(case isFuncRegex H name of
            None \<Rightarrow> isFunction H M name (Caller k) rt = None
          | Some f \<Rightarrow>
              (\<exists>rt1 rt2.
                 isFunction H M name (Caller k) rt = Some rt1
                 \<and> stdin rt1 = stdin rt @ [(''which '' @ name) @ [newline],
                                            echo (syncString M (Suc (commandNumber rt))) @ [newline]]
                 \<and> inputHandler rt1
                     = [IsFunctionHandler f None (syncRegEx H M (Suc (commandNumber rt))) (Caller k)]
                 \<and> run H M (map Stdout (ls @ [mk])) rt1 = Some ([], rt2)
                 \<and> invoked rt2 = invoked rt @ [(k, remembered (Some f) ls)]
                 \<and> inputHandler rt2 = []))
       \<and> (list_all PatternCharacter name \<longrightarrow> isFuncRegex H name \<noteq> None)"
proof -
  let ?re = "syncRegEx H M (Suc (commandNumber rt))"
  have a: "\<exists>rt1 rt2.
      isFunction H M name (Caller k) rt = Some rt1
      \<and> stdin rt1 = stdin rt @ [(''which '' @ name) @ [newline],
                                 echo (syncString M (Suc (commandNumber rt))) @ [newline]]
      \<and> inputHandler rt1 = [IsFunctionHandler f None ?re (Caller k)]
      \<and> run H M (map Stdout (ls @ [mk])) rt1 = Some ([], rt2)
      \<and> invoked rt2 = invoked rt @ [(k, remembered (Some f) ls)]
      \<and> inputHandler rt2 = []"
    if f: "isFuncRegex H name = Some f" for f
  proof -
    obtain rt1 where rt1: "isFunction H M name (Caller k) rt = Some rt1"
        "inputHandler rt1 = [IsFunctionHandler f None ?re (Caller k)]" "invoked rt1 = invoked rt"
        "stdin rt1 = stdin rt @ [(''which '' @ name) @ [newline], echo (syncString M (Suc (commandNumber rt))) @ [newline]]"
      using isFunction_effect[OF assms(1) f, of "Caller k" rt] assms(2) by auto
    obtain rt' where rt': "run H M (map Stdout ls) rt1 = Some ([], rt')"
        "inputHandler rt' = [IsFunctionHandler f (recall f None ls) ?re (Caller k)]" "invoked rt' = invoked rt1"
      using run_isFunction_content[OF rt1(2) assms(3), of H M] by blast
    obtain rt2 where rt2: "onStdout H M mk rt' = Some rt2" "inputHandler rt2 = []"
        "invoked rt2 = invoked rt' @ [(k, recall f None ls)]"
      using onStdout_isFunction_marker[OF assms(1) rt'(2) assms(4)] by blast
    have "run H M [Stdout mk] rt' = Some ([], rt2)"
      using rt2(1) by simp
    then have "run H M (map Stdout ls @ [Stdout mk]) rt1 = Some ([] @ [], rt2)"
      using rt'(1) by (rule run_append_Some[rotated])
    then show ?thesis
      using rt1 rt' rt2 by (simp add: recall_remembered)
  qed
  have b: "isFunction H M name (Caller k) rt = None" if "isFuncRegex H name = None"
    using that by (simp add: isFunction_def)
  have c: "list_all PatternCharacter name \<longrightarrow> isFuncRegex H name \<noteq> None"
    using isFuncRegex_plain by blast
  show ?thesis
    using a b c by (cases "isFuncRegex H name") simp_all
qed

theorem isFunction_delivers_latest_match_witness:
  "list_all PatternCharacter ''octave''
   \<and> inputHandler (Runtime_new ''octave-cli'' ''/w'' False) = []
   \<and> String_match ''vsc::octave:2''
        (syncRegEx no_host ''octave'' (Suc (commandNumber (Runtime_new ''octave-cli'' ''/w'' False))))
   \<and> list_all PatternCharacter ''sin''
   \<and> (\<exists>rt1 rt2.
        isFunction no_host ''octave'' ''sin'' (Caller 1) (Runtime_new ''octave-cli'' ''/w'' False) = Some rt1
        \<and> run no_host ''octave''
             [Stdout ([squote] @ ''sin'' @ [squote] @ '' is a built-in function from the file /x/sin.m''),
              Stdout ''vsc::octave:2''] rt1 = Some ([], rt2)
        \<and> invoked rt2
            = [(1, Some ([squote] @ ''sin'' @ [squote] @ '' is a built-in function from the file /x/sin.m''))])
   \<and> (\<exists>rt1 rt2.
        isFunction no_host ''octave'' ''sin'' (Caller 1) (Runtime_new ''octave-cli'' ''/w'' False) = Some rt1
        \<and> run no_host ''octave'' [Stdout ''ans = 4'', Stdout ''vsc::octave:2''] rt1 = Some ([], rt2)
        \<and> invoked rt2 = [(1, None)])
   \<and> (\<exists>rt1 rt2.
        isFunction no_host ''octave'' ''x(1)'' (Caller 1) (Runtime_new ''octave-cli'' ''/w'' False) = Some rt1
        \<and> run no_host ''octave''
             [Stdout ([squote] @ ''x1'' @ [squote] @ '' is a function from the file /a/x1.m''),
              Stdout ''vsc::octave:2''] rt1 = Some ([], rt2)
        \<and> invoked rt2
            = [(1, Some ([squote] @ ''x1'' @ [squote] @ '' is a function from the file /a/x1.m''))])
   \<and> isFuncRegex no_host ''x['' = None
   \<and> isFunction no_host ''octave'' ''x['' (Caller 1) (Runtime_new ''octave-cli'' ''/w'' False) = None"
proof -
  let ?rt = "Runtime_new ''octave-cli'' ''/w'' False"
  let ?d = "[squote] @ ''sin'' @ [squote] @ '' is a built-in function from the file /x/sin.m''"
  let ?x = "[squote] @ ''x1'' @ [squote] @ '' is a function from the file /a/x1.m''"
  have h1: "list_all PatternCharacter ''octave''"
    by code_simp
  have h3: "inputHandler ?rt = []"
    by (simp add: Runtime_new_fields)
  have cn: "Suc (commandNumber ?rt) = 2"
    by (simp add: Runtime_new_fields)
  have h4: "list_all (\<lambda>l. \<not> String_match l (syncRegEx no_host ''octave'' (Suc (commandNumber ?rt)))) [?d]"
    unfolding cn by code_simp
  have h4': "list_all (\<lambda>l. \<not> String_match l (syncRegEx no_host ''octave'' (Suc (commandNumber ?rt)))) [''ans = 4'']"
    unfolding cn by code_simp
  have h4'': "list_all (\<lambda>l. \<not> String_match l (syncRegEx no_host ''octave'' (Suc (commandNumber ?rt)))) [?x]"
    unfolding cn by code_simp
  have h5: "String_match ''vsc::octave:2'' (syncRegEx no_host ''octave'' (Suc (commandNumber ?rt)))"
    unfolding cn by code_simp
  have p: "list_all PatternCharacter ''sin''"
    by code_simp
  have "isFuncRegex no_host ''sin'' \<noteq> None" "isFuncRegex no_host ''x(1)'' \<noteq> None"
    by code_simp+
  then obtain f g where f: "isFuncRegex no_host ''sin'' = Some f"
      and g: "isFuncRegex no_host ''x(1)'' = Some g"
    by blast
  have n: "isFuncRegex no_host ''x['' = None"
    by code_simp
  have "remembered (isFuncRegex no_host ''sin'') [?d] = Some ?d"
      "remembered (isFuncRegex no_host ''sin'') [''ans = 4''] = None"
      "remembered (isFuncRegex no_host ''x(1)'') [?x] = Some ?x"
    by code_simp+
  then have c: "remembered (Some f) [?d] = Some ?d" "remembered (Some f) [''ans = 4''] = None"
      "remembered (Some g) [?x] = Some ?x"
    unfolding f g by simp_all
  have i: "invoked ?rt = []"
    by (simp add: Runtime_new_fields)
  from isFunction_delivers_latest_match[OF h1 h3 h4 h5, where name = "''sin''" and k = 1] f
  obtain rt1 rt2 where
    "isFunction no_host ''octave'' ''sin'' (Caller 1) ?rt = Some rt1"
    "run no_host ''octave'' (map Stdout ([?d] @ [''vsc::octave:2''])) rt1 = Some ([], rt2)"
    "invoked rt2 = invoked ?rt @ [(1, remembered (Some f) [?d])]"
    by auto
  then have "isFunction no_host ''octave'' ''sin'' (Caller 1) ?rt = Some rt1
        \<and> run no_host ''octave'' [Stdout ?d, Stdout ''vsc::octave:2''] rt1 = Some ([], rt2)
        \<and> invoked rt2 = [(1, Some ?d)]"
    using c(1) i by simp
  then have a: "\<exists>rt1 rt2.
        isFunction no_host ''octave'' ''sin'' (Caller 1) ?rt = Some rt1
        \<and> run no_host ''octave'' [Stdout ?d, Stdout ''vsc::octave:2''] rt1 = Some ([], rt2)
        \<and> invoked rt2 = [(1, Some ?d)]"
    by blast
  from isFunction_delivers_latest_match[OF h1 h3 h4' h5, where name = "''sin''" and k = 1] f
  obtain rt3 rt4 where
    "isFunction no_host ''octave'' ''sin'' (Caller 1) ?rt = Some rt3"
    "run no_host ''octave'' (map Stdout ([''ans = 4''] @ [''vsc::octave:2''])) rt3 = Some ([], rt4)"
    "invoked rt4 = invoked ?rt @ [(1, remembered (Some f) [''ans = 4''])]"
    by auto
  then have "isFunction no_host ''octave'' ''sin'' (Caller 1) ?rt = Some rt3
        \<and> run no_host ''octave'' [Stdout ''ans = 4'', Stdout ''vsc::octave:2''] rt3 = Some ([], rt4)
        \<and> invoked rt4 = [(1, None)]"
    using c(2) i by simp
  then have b: "\<exists>rt1 rt2.
        isFunction no_host ''octave'' ''sin'' (Caller 1) ?rt = Some rt1
        \<and> run no_host ''octave'' [Stdout ''ans = 4'', Stdout ''vsc::octave:2''] rt1 = Some ([], rt2)
        \<and> invoked rt2 = [(1, None)]"
    by blast
  from isFunction_delivers_latest_match[OF h1 h3 h4'' h5, where name = "''x(1)''" and k = 1] g
  obtain rt5 rt6 where
    "isFunction no_host ''octave'' ''x(1)'' (Caller 1) ?rt = Some rt5"
    "run no_host ''octave'' (map Stdout ([?x] @ [''vsc::octave:2''])) rt5 = Some ([], rt6)"
    "invoked rt6 = invoked ?rt @ [(1, remembered (Some g) [?x])]"
    by auto
  then have "isFunction no_host ''octave'' ''x(1)'' (Caller 1) ?rt = Some rt5
        \<and> run no_host ''octave'' [Stdout ?x, Stdout ''vsc::octave:2''] rt5 = Some ([], rt6)
        \<and> invoked rt6 = [(1, Some ?x)]"
    using c(3) i by simp
  then have d: "\<exists>rt1 rt2.
        isFunction no_host ''octave'' ''x(1)'' (Caller 1) ?rt = Some rt1
        \<and> run no_host ''octave'' [Stdout ?x, Stdout ''vsc::octave:2''] rt1 = Some ([], rt2)
        \<and> invoked rt2 = [(1, Some ?x)]"
    by blast
  have e: "isFunction no_host ''octave'' ''x['' (Caller 1) ?rt = None"
    using isFunction_delivers_latest_match[OF h1 h3 h4 h5, where name = "''x[''" and k = 1] n
    by simp
  show ?thesis
    using h1 h3 h5 p a b d n e by (intro conjI)
qed

theorem isFunction_first_match_counterexample:
  "map_option (invoked \<circ> snd)
     (Option.bind (isFunction no_host ''octave'' ''f'' (Caller 1) (Runtime_new ''octave-cli'' ''/w'' False))
        (run no_host ''octave''
           [Stdout ([squote] @ ''f'' @ [squote] @ '' is a function from the file /a/f.m''),
            Stdout ([squote] @ ''f'' @ [squote] @ '' is a function from the file /b/f.m''),
            Stdout ''vsc::octave:2'']))
     = Some [(1, Some ([squote] @ ''f'' @ [squote] @ '' is a function from the file /b/f.m''))]
   \<and> claimed_descriptor (isFuncRegex no_host ''f'')
        [[squote] @ ''f'' @ [squote] @ '' is a function from the file /a/f.m'',
         [squote] @ ''f'' @ [squote] @ '' is a function from the file /b/f.m'']
     = Some ([squote] @ ''f'' @ [squote] @ '' is a function from the file /a/f.m'')"
  by code_simp

text \<open>
  Claim C4, as amended. For every line of the secondary stream, the registered event
  handlers are called in registration order and the calls stop with the first one that
  returns true: those called are the handlers before the first accepting one, and that
  one. The line is then forwarded to the diagnostics sink as a warning in every case,
  whether or not a handler returned true.

  As the specification words it (forwarded if and only if no handler returned true)
  the claim fails: a line that a handler consumed is forwarded all the same.
\<close>

theorem onStderr_dispatch_then_warn:
  "eventCalls (onStderr data rt) =
     eventCalls rt @ map (\<lambda>h. (tag h, data))
       (takeWhile (\<lambda>h. \<not> accepts h data) (eventHandler rt)
        @ take 1 (dropWhile (\<lambda>h. \<not> accepts h data) (eventHandler rt)))
   \<and> logger (onStderr data rt) = logger rt @ [(Warn, Some data)]"
  by (simp add: onStderr_def split_beta warn_def Let_def some_handler_calls some_handler_logger)

theorem onStderr_dispatch_then_warn_witness:
  "eventCalls (onStderr ''warning: x''
      (addEventHandler (EventHandler 3 is_any_line)
        (addEventHandler (EventHandler 2 is_warning_line)
          (addEventHandler (EventHandler 1 is_error_line)
            (Runtime_new ''octave-cli'' ''/w'' False)))))
     = [(1, ''warning: x''), (2, ''warning: x'')]"
  using onStderr_dispatch_then_warn[of "''warning: x''"
      "addEventHandler (EventHandler 3 is_any_line)
        (addEventHandler (EventHandler 2 is_warning_line)
          (addEventHandler (EventHandler 1 is_error_line)
            (Runtime_new ''octave-cli'' ''/w'' False)))"]
  by (simp add: Runtime_new_fields is_error_line_def is_warning_line_def)

theorem onStderr_warns_consumed_line_counterexample:
  "accepts (EventHandler 1 is_error_line) ''error: x''
   \<and> eventCalls (onStderr ''error: x''
        (addEventHandler (EventHandler 1 is_error_line) (Runtime_new ''octave-cli'' ''/w'' False)))
      = [(1, ''error: x'')]
   \<and> (Warn, Some ''error: x'')
       \<in> set (logger (onStderr ''error: x''
            (addEventHandler (EventHandler 1 is_error_line) (Runtime_new ''octave-cli'' ''/w'' False))))"
  by (simp add: onStderr_logger onStderr_eventCalls some_handler_calls Runtime_new_fields is_error_line_def)

text \<open>
  Claim C5. On every session and for every history of calls and events on it: \<open>sync\<close>
  is called by the \<open>Sync\<close> actions of the history and, inside them, by \<open>waitSync\<close>,
  \<open>waitSend\<close>, \<open>evaluate\<close>, \<open>isFunction\<close> and \<open>Expression.evaluate\<close>, also when one of
  these is called from a callback while a line is handled. If the history runs to its
  end, the tokens that all these calls of \<open>sync\<close> returned, in the order of the calls,
  are strictly increasing, so no token is returned twice; each lies between the command
  counter before the history and the counter after it, so a later \<open>sync\<close> returns a
  larger one still; and the tokens returned to the \<open>Sync\<close> actions are among them, in
  order. On a new session these are all the tokens of the session. A history does not
  run to its end only if one of its calls throws, and then it has run up to that call.
\<close>

theorem sync_tokens_strictly_increasing:
  assumes "list_all PatternCharacter M"
  shows "(case run H M acts rt of
            Some (toks, rt') \<Rightarrow>
              (\<exists>new. issued rt' = issued rt @ new
                 \<and> sorted_wrt (<) new
                 \<and> distinct new
                 \<and> list_all (\<lambda>t. commandNumber rt \<le> t \<and> t < commandNumber rt') new
                 \<and> subseq toks new)
          | None \<Rightarrow>
              (\<exists>pre a post ts r. acts = pre @ a # post
                 \<and> run H M pre rt = Some (ts, r) \<and> throws H a r))
       \<and> (case run H M acts (Runtime_new name sourceFolder l) of
            Some (toks, rt') \<Rightarrow>
              sorted_wrt (<) (issued rt') \<and> distinct (issued rt') \<and> subseq toks (issued rt')
          | None \<Rightarrow> True)"
proof -
  have a: "\<exists>new. issued rt' = issued rt @ new \<and> sorted_wrt (<) new \<and> distinct new
      \<and> list_all (\<lambda>t. commandNumber rt \<le> t \<and> t < commandNumber rt') new \<and> subseq toks new"
    if r: "run H M acts rt = Some (toks, rt')" for rt toks rt'
  proof -
    obtain new where n: "advance rt rt' new" "subseq toks new"
      using run_advance[OF assms r] by blast
    have "distinct new"
      using n(1) by (simp add: advance_def strict_sorted_iff)
    then show ?thesis
      using n by (auto simp: advance_def)
  qed
  have b: "sorted_wrt (<) (issued rt') \<and> distinct (issued rt') \<and> subseq toks (issued rt')"
    if r: "run H M acts (Runtime_new name sourceFolder l) = Some (toks, rt')" for toks rt'
    using a[OF r] by (auto simp: Runtime_new_fields)
  show ?thesis
    using a b run_None[OF assms, of H acts rt] by (auto split: option.splits)
qed

theorem sync_tokens_strictly_increasing_witness:
  "list_all PatternCharacter ''octave''
   \<and> (\<exists>rt'. run no_host ''octave''
          [Sync, Evaluate ''1+1'' (Caller 1), WaitSync (Caller 2), WaitSend ''x'' (Caller 3), Sync]
          (Runtime_new ''octave-cli'' ''/w'' False) = Some ([1, 7], rt')
        \<and> issued rt' = [1, 3, 4, 6, 7]
        \<and> sorted_wrt (<) (issued rt') \<and> distinct (issued rt') \<and> subseq [1, 7] (issued rt'))"
proof -
  let ?acts = "[Sync, Evaluate ''1+1'' (Caller 1), WaitSync (Caller 2), WaitSend ''x'' (Caller 3), Sync]"
  let ?rt = "Runtime_new ''octave-cli'' ''/w'' False"
  have h1: "list_all PatternCharacter ''octave''"
    by code_simp
  obtain rt' where r: "run no_host ''octave'' ?acts ?rt = Some ([1, 7], rt')"
      "issued rt' = [1, 3, 4, 6, 7]"
    using tokens_of_five_calls[OF h1, of no_host "''1+1''" "Caller 1" "Caller 2" "''x''" "Caller 3" ?rt]
    by (auto simp: Runtime_new_fields)
  have "sorted_wrt (<) (issued rt') \<and> distinct (issued rt') \<and> subseq [1, 7] (issued rt')"
    using sync_tokens_strictly_increasing[OF h1, where H = no_host and acts = ?acts
        and rt = ?rt and name = "''octave-cli''" and sourceFolder = "''/w''" and l = False] r(1)
    by simp
  then show ?thesis
    using h1 r by blast
qed

text \<open>
  Claim C6. When the process exits, the session emits \<open>exit\<close> once, every listener
  registered for \<open>exit\<close> is called once for it, no callback is invoked and the handler
  queue stays as it is. In every history that can follow the exit (no line of the
  primary stream and no second exit, whatever else the other layers call), no callback
  is invoked: the handlers still in the queue are never resolved; and \<open>exit\<close> is neither
  emitted nor delivered to a listener again. The same holds for the callbacks after an
  error of the process has been emitted, in every history without a line of the primary
  stream. Such a history stops early only at a call that throws.
\<close>

theorem exit_leaves_queue_pending:
  assumes "list_all PatternCharacter M"
    and "list_all (\<lambda>a. \<not> is_stdout a \<and> \<not> is_exit a) post"
    and "list_all (\<lambda>a. \<not> is_stdout a) post2"
  shows "(\<exists>rt1. onExit code rt = Some rt1
            \<and> inputHandler rt1 = inputHandler rt
            \<and> invoked rt1 = invoked rt
            \<and> emitted rt1 = emitted rt @ [''exit'']
            \<and> notified rt1 = notified rt @ filter (\<lambda>l. fst l = ''exit'') (listeners rt)
            \<and> (case run H M post rt1 of
                 Some (ts, rt') \<Rightarrow>
                   invoked rt' = invoked rt
                   \<and> filter (\<lambda>e. e = ''exit'') (emitted rt')
                       = filter (\<lambda>e. e = ''exit'') (emitted rt) @ [''exit'']
                   \<and> filter (\<lambda>l. fst l = ''exit'') (notified rt')
                       = filter (\<lambda>l. fst l = ''exit'') (notified rt)
                           @ filter (\<lambda>l. fst l = ''exit'') (listeners rt)
               | None \<Rightarrow>
                   (\<exists>pre a post' ts r. post = pre @ a # post'
                      \<and> run H M pre rt1 = Some (ts, r) \<and> throws H a r)))
       \<and> (case onError msg connected killed rt of
            Some rt2 \<Rightarrow>
              inputHandler rt2 = inputHandler rt
              \<and> invoked rt2 = invoked rt
              \<and> emitted rt2 = emitted rt @ [''error'']
              \<and> notified rt2 = notified rt @ filter (\<lambda>l. fst l = ''error'') (listeners rt)
              \<and> (case run H M post2 rt2 of
                   Some (ts, rt') \<Rightarrow> invoked rt' = invoked rt
                 | None \<Rightarrow>
                     (\<exists>pre a post' ts r. post2 = pre @ a # post'
                        \<and> run H M pre rt2 = Some (ts, r) \<and> throws H a r))
          | None \<Rightarrow> filter (\<lambda>l. fst l = ''error'') (listeners rt) = [])"
proof -
  obtain rt1 where rt1: "onExit code rt = Some rt1" "inputHandler rt1 = inputHandler rt"
      "invoked rt1 = invoked rt" "emitted rt1 = emitted rt @ [''exit'']"
      "notified rt1 = notified rt @ filter (\<lambda>l. fst l = ''exit'') (listeners rt)"
    using onExit_effect[of code rt] by blast
  have a: "case run H M post rt1 of
        Some (ts, rt') \<Rightarrow>
          invoked rt' = invoked rt
          \<and> filter (\<lambda>e. e = ''exit'') (emitted rt')
              = filter (\<lambda>e. e = ''exit'') (emitted rt) @ [''exit'']
          \<and> filter (\<lambda>l. fst l = ''exit'') (notified rt')
              = filter (\<lambda>l. fst l = ''exit'') (notified rt)
                  @ filter (\<lambda>l. fst l = ''exit'') (listeners rt)
      | None \<Rightarrow>
          (\<exists>pre a post' ts r. post = pre @ a # post'
             \<and> run H M pre rt1 = Some (ts, r) \<and> throws H a r)"
  proof (cases "run H M post rt1")
    case None
    then show ?thesis
      using run_None[OF assms(1) None] by simp
  next
    case (Some p)
    obtain ts rt' where p: "p = (ts, rt')"
      by (cases p)
    have q: "list_all (\<lambda>a. \<not> is_stdout a) post"
      using assms(2) by (simp add: list_all_iff)
    have "invoked rt' = invoked rt1"
      using run_quiet[OF q] Some p by simp
    moreover have "filter (\<lambda>e. e = ''exit'') (emitted rt') = filter (\<lambda>e. e = ''exit'') (emitted rt1)
       \<and> filter (\<lambda>l. fst l = ''exit'') (notified rt') = filter (\<lambda>l. fst l = ''exit'') (notified rt1)"
      using run_no_exit[OF assms(2)] Some p by simp
    ultimately show ?thesis
      using Some p rt1 by simp
  qed
  have b: "case onError msg connected killed rt of
        Some rt2 \<Rightarrow>
          inputHandler rt2 = inputHandler rt
          \<and> invoked rt2 = invoked rt
          \<and> emitted rt2 = emitted rt @ [''error'']
          \<and> notified rt2 = notified rt @ filter (\<lambda>l. fst l = ''error'') (listeners rt)
          \<and> (case run H M post2 rt2 of
               Some (ts, rt') \<Rightarrow> invoked rt' = invoked rt
             | None \<Rightarrow>
                 (\<exists>pre a post' ts r. post2 = pre @ a # post'
                    \<and> run H M pre rt2 = Some (ts, r) \<and> throws H a r))
      | None \<Rightarrow> filter (\<lambda>l. fst l = ''error'') (listeners rt) = []"
  proof (cases "onError msg connected killed rt")
    case None
    then have "filter (\<lambda>l. fst l = ''error'') (listeners rt) = []"
      by (simp only: onError_None)
    then show ?thesis
      using None by simp
  next
    case (Some rt2)
    note f = onError_Some[OF Some]
    have "case run H M post2 rt2 of
               Some (ts, rt') \<Rightarrow> invoked rt' = invoked rt
             | None \<Rightarrow>
                 (\<exists>pre a post' ts r. post2 = pre @ a # post'
                    \<and> run H M pre rt2 = Some (ts, r) \<and> throws H a r)"
    proof (cases "run H M post2 rt2")
      case None
      then show ?thesis
        using run_None[OF assms(1) None] by simp
    next
      case (Some p)
      obtain ts rt' where p: "p = (ts, rt')"
        by (cases p)
      have "invoked rt' = invoked rt2"
        using run_quiet[OF assms(3)] Some p by simp
      then show ?thesis
        using Some p f by simp
    qed
    then show ?thesis
      using Some f by simp
  qed
  show ?thesis
    using rt1 a b by blast
qed

theorem exit_leaves_queue_pending_witness:
  "list_all PatternCharacter ''octave''
   \<and> list_all (\<lambda>a. \<not> is_stdout a \<and> \<not> is_exit a)
        [Stderr ''error: x'', Evaluate ''2'' (Caller 2), Error ''spawn'' False False]
   \<and> list_all (\<lambda>a. \<not> is_stdout a) [Exit None, Evaluate ''2'' (Caller 2)]
   \<and> (\<exists>rt rt1 rt' rt2 rt3.
        run no_host ''octave''
          [On ''exit'' 7, On ''error'' 8, Evaluate ''1+1'' (Caller 1)]
          (Runtime_new ''octave-cli'' ''/w'' False) = Some ([], rt)
        \<and> length (inputHandler rt) = 1
        \<and> onExit (Some 0) rt = Some rt1
        \<and> length (inputHandler rt1) = 1
        \<and> run no_host ''octave''
            [Stderr ''error: x'', Evaluate ''2'' (Caller 2), Error ''spawn'' False False] rt1
            = Some ([], rt')
        \<and> invoked rt' = []
        \<and> filter (\<lambda>e. e = ''exit'') (emitted rt') = [''exit'']
        \<and> filter (\<lambda>l. fst l = ''exit'') (notified rt') = [(''exit'', 7)]
        \<and> onError ''spawn'' False False rt = Some rt2
        \<and> length (inputHandler rt2) = 1
        \<and> notified rt2 = [(''error'', 8)]
        \<and> run no_host ''octave'' [Exit None, Evaluate ''2'' (Caller 2)] rt2 = Some ([], rt3)
        \<and> invoked rt3 = [])"
proof -
  let ?post = "[Stderr ''error: x'', Evaluate ''2'' (Caller 2), Error ''spawn'' False False]"
  let ?post2 = "[Exit None, Evaluate ''2'' (Caller 2)]"
  let ?rt0 = "on ''error'' 8 (on ''exit'' 7 (Runtime_new ''octave-cli'' ''/w'' False))"
  have h1: "list_all PatternCharacter ''octave''"
    by code_simp
  have h2: "list_all (\<lambda>a. \<not> is_stdout a \<and> \<not> is_exit a) ?post"
    by simp
  have h3: "list_all (\<lambda>a. \<not> is_stdout a) ?post2"
    by simp
  have l0: "listeners ?rt0 = [(''exit'', 7), (''error'', 8)]" "invoked ?rt0 = []"
      "emitted ?rt0 = []" "notified ?rt0 = []" "inputHandler ?rt0 = []"
    by (simp_all add: on_def Runtime_new_fields)
  obtain rt where rt: "evaluate no_host ''octave'' ''1+1'' (Caller 1) ?rt0 = Some rt"
      "length (inputHandler rt) = 1" "invoked rt = []" "emitted rt = []"
      "listeners rt = [(''exit'', 7), (''error'', 8)]" "notified rt = []"
    using evaluate_effect[OF h1, of no_host "''1+1''" "Caller 1" ?rt0] l0 by auto
  have r0: "run no_host ''octave'' [On ''exit'' 7, On ''error'' 8, Evaluate ''1+1'' (Caller 1)]
          (Runtime_new ''octave-cli'' ''/w'' False) = Some ([], rt)"
    using rt(1) by simp
  note t = exit_leaves_queue_pending[OF h1 h2 h3, where H = no_host and code = "Some 0"
      and rt = rt and msg = "''spawn''" and connected = False and killed = False]
  from t obtain rt1 where rt1: "onExit (Some 0) rt = Some rt1"
      "inputHandler rt1 = inputHandler rt" "invoked rt1 = invoked rt"
      and c1: "case run no_host ''octave'' ?post rt1 of
                 Some (ts, rt') \<Rightarrow>
                   invoked rt' = invoked rt
                   \<and> filter (\<lambda>e. e = ''exit'') (emitted rt')
                       = filter (\<lambda>e. e = ''exit'') (emitted rt) @ [''exit'']
                   \<and> filter (\<lambda>l. fst l = ''exit'') (notified rt')
                       = filter (\<lambda>l. fst l = ''exit'') (notified rt)
                           @ filter (\<lambda>l. fst l = ''exit'') (listeners rt)
               | None \<Rightarrow>
                   (\<exists>pre a post' ts r. ?post = pre @ a # post'
                      \<and> run no_host ''octave'' pre rt1 = Some (ts, r) \<and> throws no_host a r)"
    by blast
  have e1: "listeners rt1 = listeners rt"
    using rt1(1) by (auto simp: onExit_def emit_def Let_def debug_def split: if_splits)
  obtain ra where ra: "evaluate no_host ''octave'' ''2'' (Caller 2) (onStderr ''error: x'' rt1) = Some ra"
      "listeners ra = listeners (onStderr ''error: x'' rt1)"
    using evaluate_effect[OF h1, of no_host "''2''" "Caller 2" "onStderr ''error: x'' rt1"] by blast
  have "listeners (onStderr ''error: x'' rt1) = listeners rt1"
    by (simp add: onStderr_def split_beta warn_def Let_def some_handler_same)
  then have "onError ''spawn'' False False ra \<noteq> None"
    using ra(2) e1 rt(5) by (simp add: onError_None)
  then obtain rt' where rt': "run no_host ''octave'' ?post rt1 = Some ([], rt')"
    using ra(1) by auto
  have d1: "invoked rt' = [] \<and> filter (\<lambda>e. e = ''exit'') (emitted rt') = [''exit'']
        \<and> filter (\<lambda>l. fst l = ''exit'') (notified rt') = [(''exit'', 7)]"
    using c1 rt' rt by simp
  from t obtain rt2 where rt2: "onError ''spawn'' False False rt = Some rt2"
    using rt(5) by (cases "onError ''spawn'' False False rt") auto
  from t rt2 have f2: "inputHandler rt2 = inputHandler rt" "notified rt2 = [(''error'', 8)]"
      and c2: "case run no_host ''octave'' ?post2 rt2 of
                   Some (ts, rt') \<Rightarrow> invoked rt' = invoked rt
                 | None \<Rightarrow>
                     (\<exists>pre a post' ts r. ?post2 = pre @ a # post'
                        \<and> run no_host ''octave'' pre rt2 = Some (ts, r) \<and> throws no_host a r)"
    using rt by simp_all
  obtain rb where rb: "onExit None rt2 = Some rb"
    using onExit_effect[of None rt2] by blast
  obtain rt3 where "evaluate no_host ''octave'' ''2'' (Caller 2) rb = Some rt3"
    using evaluate_effect[OF h1, of no_host "''2''" "Caller 2" rb] by blast
  then have rt3: "run no_host ''octave'' ?post2 rt2 = Some ([], rt3)"
    using rb by simp
  have d2: "invoked rt3 = []"
    using c2 rt3 rt by simp
  have "run no_host ''octave''
          [On ''exit'' 7, On ''error'' 8, Evaluate ''1+1'' (Caller 1)]
          (Runtime_new ''octave-cli'' ''/w'' False) = Some ([], rt)
        \<and> length (inputHandler rt) = 1
        \<and> onExit (Some 0) rt = Some rt1
        \<and> length (inputHandler rt1) = 1
        \<and> run no_host ''octave'' ?post rt1 = Some ([], rt')
        \<and> invoked rt' = []
        \<and> filter (\<lambda>e. e = ''exit'') (emitted rt') = [''exit'']
        \<and> filter (\<lambda>l. fst l = ''exit'') (notified rt') = [(''exit'', 7)]
        \<and> onError ''spawn'' False False rt = Some rt2
        \<and> length (inputHandler rt2) = 1
        \<and> notified rt2 = [(''error'', 8)]
        \<and> run no_host ''octave'' ?post2 rt2 = Some ([], rt3)
        \<and> invoked rt3 = []"
    using r0 rt(2) rt1 rt' d1 rt2 f2 rt3 d2 by simp
  then show ?thesis
    using h1 h2 h3 by blast
qed

text \<open>
  Claim C7. \<open>PROMPT_REGEX\<close> denotes the pattern that strips leading prompts, and both
  closures apply it to every content line. A line that is any number of repetitions of
  the prompt followed by a text that does not begin with a prompt is taken as that text:
  the prompt twice and then \<open>some text\<close> becomes \<open>some text\<close>. So on such a line, when it
  is not the marker awaited, the closure of \<open>evaluate\<close> returns false and appends to its
  collected text the trimmed text behind the prompts (nothing when that is empty, with a
  line feed in between when something was collected before), and the closure of
  \<open>isFunction\<close>, when the line matches its pattern, returns false and remembers the
  trimmed text behind the prompts; \<open>onStdout\<close> puts the closure back at the front of the
  queue with exactly that. A content line with leading prompts is treated like the line
  without them. The matcher for a token returns true on a line if and only if the line
  is some number of repetitions of the prompt followed by exactly the marker text of
  that token.
\<close>

theorem prompts_stripped_marker_exact:
  assumes "list_all PatternCharacter M"
  shows "PROMPT_REGEX H = Some (exec prompt_pattern)
    \<and> stripped (prompts k @ s) = stripped s
    \<and> (\<not> prefix PROMPT s \<longrightarrow> String_replace (prompts k @ s) (exec prompt_pattern) [] = s)
    \<and> stripped (PROMPT @ PROMPT @ ''some text'') = ''some text''
    \<and> (\<not> String_match (prompts k @ s) re \<and> \<not> prefix PROMPT s \<longrightarrow>
         call_handler H M (EvaluateHandler v re cb) (prompts k @ s) rt
           = Some (False,
                   EvaluateHandler
                     (if String_trim s = [] then v
                      else if v = [] then String_trim s
                      else v @ [newline] @ String_trim s) re cb,
                   rt))
    \<and> (\<not> String_match (prompts k @ s) re \<and> \<not> prefix PROMPT s
         \<and> String_match (prompts k @ s) (Some f) \<longrightarrow>
         call_handler H M (IsFunctionHandler f w re cb) (prompts k @ s) rt
           = Some (False, IsFunctionHandler f (Some (String_trim s)) re cb, rt))
    \<and> (\<not> String_match (prompts k @ s) re \<and> \<not> prefix PROMPT s
         \<and> inputHandler rt = EvaluateHandler v re cb # q \<longrightarrow>
         (\<exists>rt'. onStdout H M (prompts k @ s) rt = Some rt'
            \<and> inputHandler rt'
                = EvaluateHandler
                    (if String_trim s = [] then v
                     else if v = [] then String_trim s
                     else v @ [newline] @ String_trim s) re cb # q
            \<and> invoked rt' = invoked rt))
    \<and> (\<not> String_match (prompts k @ s) re \<and> \<not> String_match s re \<longrightarrow>
         call_handler H M (EvaluateHandler v re cb) (prompts k @ s) rt
           = call_handler H M (EvaluateHandler v re cb) s rt)
    \<and> (String_match line (syncRegEx H M t) \<longleftrightarrow> (\<exists>j. line = prompts j @ syncString M t))"
proof -
  let ?v' = "if String_trim s = [] then v else if v = [] then String_trim s
             else v @ [newline] @ String_trim s"
  have a: "stripped (prompts k @ s) = stripped s"
    by (simp add: stripped_def strip_prompts)
  have "prompts 2 = PROMPT @ PROMPT"
    by (simp add: prompts_def numeral_2_eq_2)
  moreover have "\<not> prefix PROMPT ''some text''"
    by (simp add: PROMPT_def)
  ultimately have "String_replace (PROMPT @ PROMPT @ ''some text'') (exec prompt_pattern) [] = ''some text''"
    using strip_prompts_exact[of "''some text''" 2] by simp
  then have b: "stripped (PROMPT @ PROMPT @ ''some text'') = ''some text''"
    by (simp add: stripped_def String_trim_def WhiteSpace_def)
  have s: "stripped (prompts k @ s) = String_trim s" if "\<not> prefix PROMPT s"
    using strip_prompts_exact[OF that, of k] by (simp add: stripped_def)
  have ap: "append_line v (prompts k @ s) = ?v'" if "\<not> prefix PROMPT s"
    using s[OF that] by (simp add: append_line_def)
  have c: "call_handler H M (EvaluateHandler v re cb) (prompts k @ s) rt
           = Some (False, EvaluateHandler ?v' re cb, rt)"
    if "\<not> String_match (prompts k @ s) re" "\<not> prefix PROMPT s"
    using that(1) s[OF that(2)] by (simp add: PROMPT_REGEX_pattern stripped_def Let_def)
  have d: "call_handler H M (IsFunctionHandler f w re cb) (prompts k @ s) rt
           = Some (False, IsFunctionHandler f (Some (String_trim s)) re cb, rt)"
    if "\<not> String_match (prompts k @ s) re" "\<not> prefix PROMPT s"
      "String_match (prompts k @ s) (Some f)"
    using that(1,3) s[OF that(2)] by (simp add: PROMPT_REGEX_pattern stripped_def)
  have e: "\<exists>rt'. onStdout H M (prompts k @ s) rt = Some rt'
            \<and> inputHandler rt' = EvaluateHandler ?v' re cb # q
            \<and> invoked rt' = invoked rt"
    if "\<not> String_match (prompts k @ s) re" "\<not> prefix PROMPT s"
      "inputHandler rt = EvaluateHandler v re cb # q"
    using onStdout_evaluate_content[OF that(3,1), of H M] ap[OF that(2)] by auto
  have g: "call_handler H M (EvaluateHandler v re cb) (prompts k @ s) rt
           = call_handler H M (EvaluateHandler v re cb) s rt"
    if "\<not> String_match (prompts k @ s) re" "\<not> String_match s re"
    using that by (simp add: PROMPT_REGEX_pattern strip_prompts)
  have m: "String_match line (syncRegEx H M t) \<longleftrightarrow> (\<exists>j. line = prompts j @ syncString M t)"
    by (rule String_match_sync[OF assms])
  have x: "\<not> prefix PROMPT s \<longrightarrow> String_replace (prompts k @ s) (exec prompt_pattern) [] = s"
    using strip_prompts_exact by blast
  show ?thesis
    using PROMPT_REGEX_pattern[of H] a x b c d e g m by (intro conjI impI) blast+
qed

theorem prompts_stripped_marker_exact_witness:
  "list_all PatternCharacter ''octave''
   \<and> \<not> prefix PROMPT ''some text''
   \<and> \<not> prefix PROMPT ([squote] @ ''f'' @ [squote] @ '' is a function from the file /a/f.m  '')
   \<and> \<not> String_match (prompts 2 @ ''some text'') (syncRegEx no_host ''octave'' 2)
   \<and> \<not> String_match ''some text'' (syncRegEx no_host ''octave'' 2)
   \<and> String_match (prompts 1 @ [squote] @ ''f'' @ [squote] @ '' is a function from the file /a/f.m  '')
        (isFuncRegex no_host ''f'')
   \<and> stripped (prompts 2 @ ''some text'') = stripped ''some text''
   \<and> String_replace (prompts 2 @ ''some text'') (exec prompt_pattern) [] = ''some text''
   \<and> call_handler no_host ''octave''
        (EvaluateHandler ''ans = 2'' (syncRegEx no_host ''octave'' 2) (Caller 1))
        (prompts 2 @ ''some text'') (Runtime_new ''octave-cli'' ''/w'' False)
       = Some (False,
               EvaluateHandler (''ans = 2'' @ [newline] @ ''some text'')
                 (syncRegEx no_host ''octave'' 2) (Caller 1),
               Runtime_new ''octave-cli'' ''/w'' False)
   \<and> (\<exists>f. isFuncRegex no_host ''f'' = Some f
        \<and> call_handler no_host ''octave''
             (IsFunctionHandler f None (syncRegEx no_host ''octave'' 2) (Caller 1))
             (prompts 1 @ [squote] @ ''f'' @ [squote] @ '' is a function from the file /a/f.m  '')
             (Runtime_new ''octave-cli'' ''/w'' False)
            = Some (False,
                    IsFunctionHandler f
                      (Some ([squote] @ ''f'' @ [squote] @ '' is a function from the file /a/f.m''))
                      (syncRegEx no_host ''octave'' 2) (Caller 1),
                    Runtime_new ''octave-cli'' ''/w'' False))
   \<and> String_match (prompts 3 @ syncString ''octave'' 2) (syncRegEx no_host ''octave'' 2)"
proof -
  let ?re = "syncRegEx no_host ''octave'' 2"
  let ?rt = "Runtime_new ''octave-cli'' ''/w'' False"
  let ?d = "[squote] @ ''f'' @ [squote] @ '' is a function from the file /a/f.m  ''"
  have h1: "list_all PatternCharacter ''octave''"
    by code_simp
  have h2: "\<not> prefix PROMPT ''some text''"
    by (simp add: PROMPT_def)
  have h2': "\<not> prefix PROMPT ?d"
    by (simp add: PROMPT_def squote_def)
  have h3: "\<not> String_match (prompts 2 @ ''some text'') ?re"
    by code_simp
  have h4: "\<not> String_match ''some text'' ?re"
    by code_simp
  have h5: "\<not> String_match (prompts 1 @ ?d) ?re"
    by code_simp
  have h6: "String_match (prompts 1 @ ?d) (isFuncRegex no_host ''f'')"
    by code_simp
  have "isFuncRegex no_host ''f'' \<noteq> None"
    by code_simp
  then obtain f where f: "isFuncRegex no_host ''f'' = Some f"
    by blast
  have tr: "String_trim ''some text'' = ''some text''"
      "String_trim ?d = [squote] @ ''f'' @ [squote] @ '' is a function from the file /a/f.m''"
    by code_simp+
  note t = prompts_stripped_marker_exact[OF h1, where H = no_host and k = 2 and s = "''some text''"
      and re = ?re and v = "''ans = 2''" and cb = "Caller 1" and rt = ?rt
      and line = "prompts 3 @ syncString ''octave'' 2" and t = 2]
  note u = prompts_stripped_marker_exact[OF h1, where H = no_host and k = 1 and s = ?d
      and re = ?re and f = f and w = None and cb = "Caller 1" and rt = ?rt]
  have a: "stripped (prompts 2 @ ''some text'') = stripped ''some text''"
    using t by blast
  have b: "String_replace (prompts 2 @ ''some text'') (exec prompt_pattern) [] = ''some text''"
    using t h2 by blast
  have "call_handler no_host ''octave'' (EvaluateHandler ''ans = 2'' ?re (Caller 1))
        (prompts 2 @ ''some text'') ?rt
       = Some (False,
               EvaluateHandler (if String_trim ''some text'' = [] then ''ans = 2''
                  else if ''ans = 2'' = [] then String_trim ''some text''
                  else ''ans = 2'' @ [newline] @ String_trim ''some text'') ?re (Caller 1), ?rt)"
    using t h2 h3 by blast
  then have c: "call_handler no_host ''octave'' (EvaluateHandler ''ans = 2'' ?re (Caller 1))
        (prompts 2 @ ''some text'') ?rt
       = Some (False, EvaluateHandler (''ans = 2'' @ [newline] @ ''some text'') ?re (Caller 1), ?rt)"
    unfolding tr by simp
  have "call_handler no_host ''octave'' (IsFunctionHandler f None ?re (Caller 1)) (prompts 1 @ ?d) ?rt
       = Some (False, IsFunctionHandler f (Some (String_trim ?d)) ?re (Caller 1), ?rt)"
    using u h2' h5 h6 f by simp
  then have "isFuncRegex no_host ''f'' = Some f
      \<and> call_handler no_host ''octave'' (IsFunctionHandler f None ?re (Caller 1)) (prompts 1 @ ?d) ?rt
       = Some (False,
               IsFunctionHandler f
                 (Some ([squote] @ ''f'' @ [squote] @ '' is a function from the file /a/f.m''))
                 ?re (Caller 1), ?rt)"
    unfolding tr using f by simp
  then have d: "\<exists>f. isFuncRegex no_host ''f'' = Some f
      \<and> call_handler no_host ''octave'' (IsFunctionHandler f None ?re (Caller 1)) (prompts 1 @ ?d) ?rt
       = Some (False,
               IsFunctionHandler f
                 (Some ([squote] @ ''f'' @ [squote] @ '' is a function from the file /a/f.m''))
                 ?re (Caller 1), ?rt)"
    by blast
  have e: "String_match (prompts 3 @ syncString ''octave'' 2) ?re"
    using t by blast
  show ?thesis
    using h1 h2 h2' h3 h4 h6 a b c d e by (intro conjI)
qed

text \<open>
  Claim C8, as amended. For every line of the primary stream that arrives while the
  handler queue is empty: no callback is invoked, nothing is raised or emitted, and the
  line is not added to the output buffer. If the flag \<open>stdoutHandled\<close> is unset and the
  line does not match \<open>SYNC_REGEX\<close>, the line is forwarded unchanged to the diagnostics
  sink as a warning. Otherwise the line is not forwarded: the output buffer is logged
  at debug level and emptied, and the flag is cleared.

  As the specification words it (every such line is forwarded unchanged) the claim
  fails on a line that carries a marker: the sink receives the buffer, not the line.
\<close>

theorem unclassified_line_when_queue_empty:
  assumes "list_all PatternCharacter M" and "inputHandler rt = []"
  shows "\<exists>rt'. onStdout H M data rt = Some rt'
      \<and> inputHandler rt' = []
      \<and> invoked rt' = invoked rt
      \<and> emitted rt' = emitted rt
      \<and> \<not> stdoutHandled rt'
      \<and> (if stdoutHandled rt \<or> String_match data (SYNC_REGEX H M)
          then logger rt' = logger rt @ [(Log, stdoutBuffer rt)] \<and> stdoutBuffer rt' = Some []
          else logger rt' = logger rt @ [(Warn, Some data)] \<and> stdoutBuffer rt' = stdoutBuffer rt)"
proof -
  obtain sr where sr: "SYNC_REGEX H M = Some sr"
    using SYNC_REGEX_Some[OF assms(1)] by blast
  show ?thesis
    using assms(2) by (simp add: onStdout_def onStdout_else_def sr debug_def warn_def Let_def)
qed

theorem unclassified_line_when_queue_empty_witness:
  "list_all PatternCharacter ''octave''
   \<and> inputHandler (Runtime_new ''octave-cli'' ''/w'' False) = []
   \<and> (\<exists>rt'. onStdout no_host ''octave'' ''hello'' (Runtime_new ''octave-cli'' ''/w'' False) = Some rt'
        \<and> logger rt' = logger (Runtime_new ''octave-cli'' ''/w'' False) @ [(Warn, Some ''hello'')]
        \<and> stdoutBuffer rt' = None)"
proof -
  let ?rt = "Runtime_new ''octave-cli'' ''/w'' False"
  have h1: "list_all PatternCharacter ''octave''"
    by code_simp
  have h2: "inputHandler ?rt = []"
    by (simp add: Runtime_new_fields)
  have n: "\<not> String_match ''hello'' (SYNC_REGEX no_host ''octave'')"
    by code_simp
  have "\<exists>rt'. onStdout no_host ''octave'' ''hello'' ?rt = Some rt'
        \<and> logger rt' = logger ?rt @ [(Warn, Some ''hello'')] \<and> stdoutBuffer rt' = None"
    using unclassified_line_when_queue_empty[OF h1 h2, where H = no_host and data = "''hello''"] n
    by (auto simp: Runtime_new_fields)
  then show ?thesis
    using h1 h2 by blast
qed

theorem sync_line_not_forwarded_counterexample:
  "map_option logger (onStdout no_host ''octave'' ''vsc::octave:7'' (Runtime_new ''octave-cli'' ''/w'' False))
     = Some [(Log, Some (''Runtime: connecting to '' @ [squote] @ ''octave-cli'' @ [squote] @ ''.'')),
             (Log, Some (''octave-cli:1> addpath('' @ [squote] @ ''/w'' @ [squote] @ '')'')),
             (Log, None)]"
proof -
  obtain sr where sr: "SYNC_REGEX no_host ''octave'' = Some sr"
    using SYNC_REGEX_Some[where M = "''octave''" and H = no_host] by (auto simp: PatternCharacter_def backslash_def)
  have "String_match ''vsc::octave:7'' (SYNC_REGEX no_host ''octave'')"
    by code_simp
  then have "String_match ''vsc::octave:7'' (Some sr)"
    by (simp add: sr)
  then show ?thesis
    using onStdout_empty_flush[OF sr, of "Runtime_new ''octave-cli'' ''/w'' False" "''vsc::octave:7''"]
    by (simp add: Runtime_new_fields Runtime_new_logger)
qed

text \<open>
  Claim C9. For all tokens \<open>t\<close> and \<open>t'\<close>, the matcher for token \<open>t\<close> accepts the marker
  line produced for token \<open>t'\<close>, preceded by any number of repetitions of the prompt, if
  and only if \<open>t = t'\<close>. In particular the matcher for token 1 rejects the marker line
  for token 13, and the matcher for token 13 rejects the marker line for token 1.
\<close>

theorem marker_matches_own_token_only:
  assumes "list_all PatternCharacter M"
  shows "String_match (prompts k @ syncString M t') (syncRegEx H M t) \<longleftrightarrow> t = t'"
proof
  assume "String_match (prompts k @ syncString M t') (syncRegEx H M t)"
  then obtain j where "prompts k @ syncString M t' = prompts j @ syncString M t"
    using String_match_sync[OF assms] by blast
  then have "syncString M t' = syncString M t"
    by (rule prompts_cancel) (rule syncString_no_prompt)+
  then show "t = t'"
    by (rule syncString_inj[symmetric])
next
  assume "t = t'"
  then show "String_match (prompts k @ syncString M t') (syncRegEx H M t)"
    using String_match_sync[OF assms] by blast
qed

theorem marker_matches_own_token_only_witness:
  "list_all PatternCharacter ''octave''
   \<and> \<not> String_match (prompts 0 @ syncString ''octave'' 13) (syncRegEx no_host ''octave'' 1)
   \<and> \<not> String_match (prompts 0 @ syncString ''octave'' 1) (syncRegEx no_host ''octave'' 13)
   \<and> String_match (prompts 2 @ syncString ''octave'' 13) (syncRegEx no_host ''octave'' 13)"
proof -
  have h1: "list_all PatternCharacter ''octave''"
    by code_simp
  show ?thesis
    using h1 marker_matches_own_token_only[OF h1, where k = 0 and t' = 13 and t = 1 and H = no_host]
      marker_matches_own_token_only[OF h1, where k = 0 and t' = 1 and t = 13 and H = no_host]
      marker_matches_own_token_only[OF h1, where k = 2 and t' = 13 and t = 13 and H = no_host]
    by simp
qed

text \<open>
  Claim C10, as amended. For every call \<open>Expression.evaluate(expression, runtime,
  isConsole, callback)\<close> with \<open>isConsole\<close> true, the command written to the process for
  evaluation is the expression from its second character on, followed by the echo of
  the marker; the handler enqueued is the one of \<open>evaluate\<close> with the given callback.
  For a non-empty expression the command is the expression without its first character
  and differs from the expression.

  As the specification words it (never the expression itself, for every call) the
  claim fails on the empty expression: the command written is the expression.
\<close>

theorem console_expression_loses_first_character:
  assumes "list_all PatternCharacter M"
  shows "\<exists>rt'. Expression_evaluate H M expression True cb rt = Some rt'
      \<and> stdin rt' = stdin rt @ [drop 1 expression @ [newline],
                                 echo (syncString M (Suc (commandNumber rt))) @ [newline]]
      \<and> inputHandler rt' = inputHandler rt @ [EvaluateHandler [] (syncRegEx H M (Suc (commandNumber rt))) cb]
      \<and> (\<forall>c rest. expression = c # rest \<longrightarrow> drop 1 expression = rest \<and> drop 1 expression \<noteq> expression)"
  using evaluate_effect[OF assms, of H "drop 1 expression" cb rt]
  by (auto simp: Expression_evaluate_def)

theorem console_expression_loses_first_character_witness:
  "list_all PatternCharacter ''octave''
   \<and> (\<exists>rt'. Expression_evaluate no_host ''octave'' '':x = 1'' True (Caller 1)
          (Runtime_new ''octave-cli'' ''/w'' False) = Some rt'
        \<and> stdin rt' = [''addpath('' @ [squote] @ ''/w'' @ [squote] @ '')'' @ [newline],
                        ''x = 1'' @ [newline],
                        echo ''vsc::octave:2'' @ [newline]])
   \<and> ''x = 1'' \<noteq> '':x = 1''"
proof -
  let ?rt = "Runtime_new ''octave-cli'' ''/w'' False"
  have h1: "list_all PatternCharacter ''octave''"
    by code_simp
  have s: "syncString ''octave'' (Suc (commandNumber ?rt)) = ''vsc::octave:2''"
    by code_simp
  from console_expression_loses_first_character[OF h1, where H = no_host
      and expression = "'':x = 1''" and cb = "Caller 1" and rt = ?rt]
  obtain rt' where "Expression_evaluate no_host ''octave'' '':x = 1'' True (Caller 1) ?rt = Some rt'"
    "stdin rt' = stdin ?rt @ [drop 1 '':x = 1'' @ [newline],
        echo (syncString ''octave'' (Suc (commandNumber ?rt))) @ [newline]]"
    by blast
  then have "Expression_evaluate no_host ''octave'' '':x = 1'' True (Caller 1) ?rt = Some rt'
      \<and> stdin rt' = [''addpath('' @ [squote] @ ''/w'' @ [squote] @ '')'' @ [newline],
                        ''x = 1'' @ [newline], echo ''vsc::octave:2'' @ [newline]]"
    unfolding s by (simp add: Runtime_new_fields)
  then show ?thesis
    using h1 by auto
qed

theorem console_empty_expression_counterexample:
  "map_option stdin
     (Expression_evaluate no_host ''octave'' [] True (Caller 1) (Runtime_new ''octave-cli'' ''/w'' False))
     = Some [''addpath('' @ [squote] @ ''/w'' @ [squote] @ '')'' @ [newline],
             [] @ [newline],
             echo ''vsc::octave:2'' @ [newline]]"
proof -
  let ?rt = "Runtime_new ''octave-cli'' ''/w'' False"
  have h1: "list_all PatternCharacter ''octave''"
    by code_simp
  have s: "syncString ''octave'' (Suc (commandNumber ?rt)) = ''vsc::octave:2''"
    by code_simp
  obtain rt' where "evaluate no_host ''octave'' [] (Caller 1) ?rt = Some rt'"
    "stdin rt' = stdin ?rt @ [[] @ [newline], echo (syncString ''octave'' (Suc (commandNumber ?rt))) @ [newline]]"
    using evaluate_effect[OF h1, of no_host "[]" "Caller 1" ?rt] by blast
  then show ?thesis
    unfolding s by (simp add: Expression_evaluate_def Runtime_new_fields)
qed

end
